(* ===== verification/Prelude.thy ===== *)
theory Prelude
  imports Main "HOL-Library.Word" "HOL-Library.Signed_Division"
begin

text \<open>
  Shared vocabulary of the development: run-time faults and the result type of code that
  can hit one, the loop combinator every C loop is written with, machine integers
  (\<open>uint32_t\<close>, \<open>int\<close>, \<open>unsigned char\<close>) and decimal printing.

  A fault is behaviour the C standard leaves undefined, or a crash: once it happens the
  program's further behaviour is not described, so a fault ends the computation. The
  constructors name the cause.
\<close>

named_theorems res_simps \<open>evaluation of results and loops\<close>
named_theorems frame_simps \<open>what an operation leaves unchanged\<close>

section \<open>Faults and results\<close>

datatype fault =
    NullDeref        \<comment> \<open>a member read through a NULL pointer\<close>
  | DanglingDeref    \<comment> \<open>an access to an object that was freed or never allocated\<close>
  | BufferOverflow   \<comment> \<open>an array element past the allocated size\<close>
  | IntOverflow      \<comment> \<open>a signed result outside the range of int\<close>
  | DivByZero        \<comment> \<open>an integer division by zero\<close>
  | AssertFailure    \<comment> \<open>a failed assertion\<close>

type_synonym 'a res = "fault + 'a"

definition res_bind :: "'a res \<Rightarrow> ('a \<Rightarrow> 'b res) \<Rightarrow> 'b res" where
  "res_bind m f = (case m of Inl e \<Rightarrow> Inl e | Inr x \<Rightarrow> f x)"

lemma res_bind_Inl [simp, res_simps]: "res_bind (Inl e) f = Inl e"
  by (simp add: res_bind_def)

lemma res_bind_Inr [simp, res_simps]: "res_bind (Inr x) f = f x"
  by (simp add: res_bind_def)

lemma res_bind_assoc: "res_bind (res_bind m f) g = res_bind m (\<lambda>x. res_bind (f x) g)"
  by (simp add: res_bind_def split: sum.splits)

lemma res_bind_eq_Inr: "res_bind m f = Inr y \<longleftrightarrow> (\<exists>x. m = Inr x \<and> f x = Inr y)"
  by (auto simp: res_bind_def split: sum.splits)

lemma res_bind_eq_Inl:
  "res_bind m f = Inl e \<longleftrightarrow> m = Inl e \<or> (\<exists>x. m = Inr x \<and> f x = Inl e)"
  by (auto simp: res_bind_def split: sum.splits)

text \<open>Reading through a pointer that may be NULL.\<close>

definition deref :: "'a option \<Rightarrow> 'a res" where
  "deref p = (case p of None \<Rightarrow> Inl NullDeref | Some x \<Rightarrow> Inr x)"

lemma deref_simps [simp, res_simps]:
  "deref None = Inl NullDeref" "deref (Some x) = Inr x"
  by (simp_all add: deref_def)

lemma deref_eq_Inr [simp]: "deref p = Inr x \<longleftrightarrow> p = Some x"
  by (cases p) auto

section \<open>Loops\<close>

text \<open>
  A C loop over a fixed range or over the nodes of a container: the body runs once per
  item, in order, on the state the previous iteration left, and a fault ends the loop.
\<close>

fun for_each :: "('x \<Rightarrow> 's \<Rightarrow> 's res) \<Rightarrow> 'x list \<Rightarrow> 's \<Rightarrow> 's res" where
  "for_each body [] s = Inr s"
| "for_each body (x # xs) s = res_bind (body x s) (for_each body xs)"

lemma for_each_append:
  "for_each body (xs @ ys) s = res_bind (for_each body xs s) (for_each body ys)"
  by (induction xs arbitrary: s) (auto simp: res_bind_def split: sum.splits)

lemma for_each_cong [fundef_cong]:
  assumes "xs = ys" and "s = t" and "\<And>x s. x \<in> set ys \<Longrightarrow> f x s = g x s"
  shows "for_each f xs s = for_each g ys t"
proof -
  have "for_each f ys s = for_each g ys s"
    using assms(3) by (induction ys arbitrary: s) (auto simp: res_bind_def split: sum.splits)
  with assms(1,2) show ?thesis by simp
qed

text \<open>A body that never faults makes the loop a fold.\<close>

lemma for_each_total:
  assumes "\<And>x s. x \<in> set xs \<Longrightarrow> body x s = Inr (f x s)"
  shows "for_each body xs s = Inr (fold f xs s)"
  using assms by (induction xs arbitrary: s) auto

text \<open>Partial correctness: an invariant of the body is an invariant of the loop.\<close>

lemma for_each_invariant:
  assumes "for_each body xs s = Inr t" and "P s"
    and "\<And>x s t. x \<in> set xs \<Longrightarrow> P s \<Longrightarrow> body x s = Inr t \<Longrightarrow> P t"
  shows "P t"
  using assms by (induction xs arbitrary: s) (auto simp: res_bind_eq_Inr)

text \<open>
  Total correctness: the invariant speaks about the items still to be visited, and the
  body neither faults nor breaks it.
\<close>

lemma for_each_safe:
  assumes "P xs s"
    and "\<And>x rest s. P (x # rest) s \<Longrightarrow> \<exists>t. body x s = Inr t \<and> P rest t"
  shows "\<exists>t. for_each body xs s = Inr t \<and> P [] t"
  using assms
proof (induction xs arbitrary: s)
  case Nil
  then show ?case by simp
next
  case (Cons x xs)
  from Cons.prems obtain s' where "body x s = Inr s'" and "P xs s'" by blast
  with Cons.IH [of s'] Cons.prems(2) show ?case by auto
qed

text \<open>Nested loops are one loop over the concatenation.\<close>

lemma for_each_concat:
  "for_each (\<lambda>x. for_each body (f x)) xs s = for_each body (concat (map f xs)) s"
  by (induction xs arbitrary: s)
    (auto simp: for_each_append intro!: arg_cong2 [where f = res_bind] ext)

section \<open>Lists of optional values\<close>

lemma those_eq_Some: "those xs = Some ys \<longleftrightarrow> xs = map Some ys"
proof (induction xs arbitrary: ys)
  case (Cons x xs)
  then show ?case by (cases x; cases ys) auto
qed auto

lemma those_map_Some [simp]: "those (map Some ys) = Some ys"
  by (simp add: those_eq_Some)

text \<open>The loop over indices \<open>0, \<dots>, n-1\<close> of a table, as a loop over the table's entries.\<close>

lemma those_upt_nth:
  assumes "those (map get [0..<n]) = Some ys" and "i < n"
  shows "get i = Some (ys ! i)"
proof -
  from assms(1) have eq: "map get [0..<n] = map Some ys" by (simp add: those_eq_Some)
  then have "length ys = n" by (metis length_map length_upt diff_zero)
  then show ?thesis using arg_cong [OF eq, of "\<lambda>l. l ! i"] assms(2) by simp
qed

lemma for_each_upt:
  assumes "those (map get [0..<n]) = Some ys"
    and "\<And>i s. get i \<noteq> None \<Longrightarrow> body i s = body' (the (get i)) s"
  shows "for_each body [0..<n] s = for_each body' ys s"
proof -
  from assms(1) have eq: "map get [0..<n] = map Some ys" by (simp add: those_eq_Some)
  have "for_each body is s = for_each body' ys s" if "map get is = map Some ys" for "is" ys s
    using that assms(2)
    by (induction "is" arbitrary: ys s) (auto simp: Cons_eq_map_conv intro!: arg_cong2 [where f = res_bind] ext)
  from this [OF eq] show ?thesis .
qed

text \<open>Removing an element from an association list with unique keys.\<close>

lemma distinct_map_remove1: "distinct (map f xs) \<Longrightarrow> distinct (map f (remove1 x xs))"
proof (induction xs)
  case (Cons y ys)
  then show ?case using set_remove1_subset [of x ys] by auto
qed simp

lemma restrict_upd_None: "(m(x := None)) |` (- A) = m |` (- insert x A)"
  by (auto simp: restrict_map_def)

lemma restrict_UNIV [simp]: "m |` UNIV = m"
  by (simp add: restrict_map_def)

section \<open>Machine integers\<close>

type_synonym u8 = "8 word"      \<comment> \<open>\<open>unsigned char\<close>\<close>
type_synonym u32 = "32 word"    \<comment> \<open>\<open>uint32_t\<close> and \<open>unsigned int\<close>\<close>
type_synonym c_int = "32 word"  \<comment> \<open>\<open>int\<close>, read by \<open>sint\<close>\<close>
type_synonym s64 = "64 word"    \<comment> \<open>\<open>int64_t\<close>, read by \<open>sint\<close>\<close>

definition in_int_range :: "int \<Rightarrow> bool" where
  "in_int_range i \<longleftrightarrow> - (2 ^ 31) \<le> i \<and> i < 2 ^ 31"

text \<open>Signed multiplication and division of two \<open>int\<close>s; C division truncates.\<close>

definition int_mul :: "c_int \<Rightarrow> c_int \<Rightarrow> c_int res" where
  "int_mul a b = (let p = sint a * sint b in
     if in_int_range p then Inr (word_of_int p) else Inl IntOverflow)"

definition int_div :: "c_int \<Rightarrow> c_int \<Rightarrow> c_int res" where
  "int_div a b = (if b = 0 then Inl DivByZero else
     let q = sint a sdiv sint b in
     if in_int_range q then Inr (word_of_int q) else Inl IntOverflow)"

lemma sint_word_of_int: "in_int_range i \<Longrightarrow> sint (word_of_int i :: c_int) = i"
  by (simp add: in_int_range_def sint_sbintrunc' signed_take_bit_int_eq_self)

lemma in_int_range_sint [simp]: "in_int_range (sint (x :: c_int))"
  using sint_ge [of x] sint_lt [of x] by (simp add: in_int_range_def)

lemma sint_eq_uint_small:
  assumes "uint (x :: c_int) < 2 ^ 31" shows "sint x = uint x"
proof -
  have "- (2 ^ 31) \<le> uint x" by (rule order_trans [OF _ uint_ge_0]) simp
  with assms have "signed_take_bit 31 (uint x) = uint x"
    by (intro signed_take_bit_int_eq_self)
  then show ?thesis by (simp add: sint_uint)
qed

section \<open>Decimal printing (\<open>%d\<close>)\<close>

fun show_nat :: "nat \<Rightarrow> string" where
  "show_nat n = (if n < 10 then [char_of (48 + n)]
     else show_nat (n div 10) @ [char_of (48 + n mod 10)])"

declare show_nat.simps [simp del]

definition show_int :: "int \<Rightarrow> string" where
  "show_int i = (if i < 0 then CHR ''-'' # show_nat (nat (- i)) else show_nat (nat i))"

end
