(* ===== verification/Enums.thy ===== *)
theory Enums
  imports Prelude
begin

text \<open>
  The three enumerations of the daemon and their text forms: \<open>src/fanspeed.c\<close>,
  \<open>src/fandirection.c\<close>, \<open>src/fanstatus.c\<close> with their headers. All three convert
  through a table of strings whose order is the order of the enumerators; what they share
  is stated once in the locale \<open>enum_codec\<close> and interpreted on each.
\<close>

section \<open>The table scan\<close>

text \<open>
  The loop \<open>for (i = 0; i < n; i++) if (strcmp(table[i], name) == 0) return i\<close> of the
  three \<open>string_to_enum\<close> functions, started at index \<open>i\<close>.
\<close>

fun string_scan :: "string list \<Rightarrow> string \<Rightarrow> nat \<Rightarrow> nat option" where
  "string_scan [] name i = None"
| "string_scan (t # ts) name i = (if t = name then Some i else string_scan ts name (Suc i))"

lemma string_scan_None: "string_scan ts name i = None \<longleftrightarrow> name \<notin> set ts"
  by (induction ts arbitrary: i) auto

lemma string_scan_Some:
  "string_scan ts name i = Some j \<Longrightarrow> i \<le> j \<and> j - i < length ts \<and> ts ! (j - i) = name"
proof (induction ts arbitrary: i)
  case (Cons t ts)
  show ?case
  proof (cases "t = name")
    case False
    with Cons.prems have "string_scan ts name (Suc i) = Some j" by simp
    from Cons.IH [OF this] show ?thesis by (auto simp: nth_Cons' diff_Suc split: nat.splits)
  qed (use Cons.prems in auto)
qed simp

lemma string_scan_nth:
  "distinct ts \<Longrightarrow> k < length ts \<Longrightarrow> string_scan ts (ts ! k) i = Some (i + k)"
proof (induction ts arbitrary: i k)
  case (Cons t ts)
  then show ?case by (cases k) auto
qed simp

section \<open>The shared contract\<close>

text \<open>
  An enumeration with a table of names: \<open>val\<close> is the C value of an enumerator,
  \<open>of_index\<close> the conversion of a table index to the enumeration (\<open>return(i)\<close>),
  \<open>dflt\<close> what parsing answers for NULL and for unknown names, \<open>fallback\<close> the
  enumerator whose name is printed for values without a table entry.
\<close>

locale enum_codec =
  fixes val :: "'e \<Rightarrow> int"
    and of_index :: "nat \<Rightarrow> 'e"
    and names :: "string list"
    and dflt :: 'e
    and fallback :: 'e
    and parse :: "string option \<Rightarrow> 'e"
    and print :: "'e \<Rightarrow> string"
  assumes val_inj: "val a = val b \<Longrightarrow> a = b"
    and val_of_index: "i < length names \<Longrightarrow> val (of_index i) = int i"
    and names_distinct: "distinct names"
    and fallback_range: "0 \<le> val fallback \<and> val fallback < int (length names)"
    and parse_None: "parse None = dflt"
    and parse_Some: "parse (Some n) =
      (case string_scan names n 0 of Some i \<Rightarrow> of_index i | None \<Rightarrow> dflt)"
    and print_eq: "print e =
      (if 0 \<le> val e \<and> val e < int (length names) then names ! nat (val e)
       else names ! nat (val fallback))"
begin

lemma print_in_names: "print e \<in> set names"
  using fallback_range by (auto simp: print_eq intro!: nth_mem)

lemma parse_unknown: "n \<notin> set names \<Longrightarrow> parse (Some n) = dflt"
  using string_scan_None [of names n 0] by (simp add: parse_Some)

lemma parse_print:
  assumes "0 \<le> val e" and "val e < int (length names)"
  shows "parse (Some (print e)) = e"
proof -
  have "nat (val e) < length names" using assms by linarith
  moreover from this have "of_index (nat (val e)) = e"
    using assms(1) by (intro val_inj) (simp add: val_of_index)
  ultimately show ?thesis
    using assms by (simp add: parse_Some print_eq string_scan_nth [OF names_distinct])
qed

lemma print_parse:
  assumes "n \<in> set names" shows "print (parse (Some n)) = n"
proof -
  from assms obtain k where k: "k < length names" and n: "n = names ! k"
    by (auto simp: in_set_conv_nth)
  then have "parse (Some n) = of_index k"
    by (simp add: parse_Some string_scan_nth [OF names_distinct])
  with k n show ?thesis by (simp add: print_eq val_of_index)
qed

lemma print_inject:
  assumes "print a = print b"
    and "0 \<le> val a" "val a < int (length names)" "0 \<le> val b" "val b < int (length names)"
  shows "a = b"
  using assms parse_print by metis

end

section \<open>Fan speed (\<open>fanspeed.h\<close>, \<open>fanspeed.c\<close>)\<close>

datatype fanspeed =
    FAND_SPEED_NONE
  | FAND_SPEED_SLOW
  | FAND_SPEED_NORMAL
  | FAND_SPEED_MEDIUM
  | FAND_SPEED_FAST
  | FAND_SPEED_MAX

primrec fanspeed_val :: "fanspeed \<Rightarrow> int" where
  "fanspeed_val FAND_SPEED_NONE = -1"
| "fanspeed_val FAND_SPEED_SLOW = 0"
| "fanspeed_val FAND_SPEED_NORMAL = 1"
| "fanspeed_val FAND_SPEED_MEDIUM = 2"
| "fanspeed_val FAND_SPEED_FAST = 3"
| "fanspeed_val FAND_SPEED_MAX = 4"

lemma fanspeed_val_inject [simp]: "fanspeed_val a = fanspeed_val b \<longleftrightarrow> a = b"
  by (cases a; cases b) simp_all

text \<open>C compares enumerators by their values.\<close>

instantiation fanspeed :: linorder
begin

definition less_eq_fanspeed :: "fanspeed \<Rightarrow> fanspeed \<Rightarrow> bool" where
  "a \<le> b \<longleftrightarrow> fanspeed_val a \<le> fanspeed_val b"

definition less_fanspeed :: "fanspeed \<Rightarrow> fanspeed \<Rightarrow> bool" where
  "a < b \<longleftrightarrow> fanspeed_val a < fanspeed_val b"

instance
  by standard (auto simp: less_eq_fanspeed_def less_fanspeed_def)

end

lemma fanspeed_bounds: "FAND_SPEED_NONE \<le> s" "s \<le> FAND_SPEED_MAX"
  by (cases s; simp add: less_eq_fanspeed_def)+

definition fanspeed_of_index :: "nat \<Rightarrow> fanspeed" where
  "fanspeed_of_index i =
     (if i = 0 then FAND_SPEED_SLOW
      else if i = 1 then FAND_SPEED_NORMAL
      else if i = 2 then FAND_SPEED_MEDIUM
      else if i = 3 then FAND_SPEED_FAST
      else FAND_SPEED_MAX)"

definition fanspeed_string :: "string list" where
  "fanspeed_string = [''slow'', ''normal'', ''medium'', ''fast'', ''max'']"

definition fan_speed_string_to_enum :: "string option \<Rightarrow> fanspeed" where
  "fan_speed_string_to_enum name =
     (case name of
        None \<Rightarrow> FAND_SPEED_NONE
      | Some n \<Rightarrow>
          (case string_scan fanspeed_string n 0 of
             Some i \<Rightarrow> fanspeed_of_index i
           | None \<Rightarrow> FAND_SPEED_NONE))"

definition fan_speed_enum_to_string :: "fanspeed \<Rightarrow> string" where
  "fan_speed_enum_to_string speed =
     (if 0 \<le> fanspeed_val speed \<and> fanspeed_val speed < int (length fanspeed_string)
      then fanspeed_string ! nat (fanspeed_val speed)
      else fanspeed_string ! nat (fanspeed_val FAND_SPEED_NORMAL))"

lemma fanspeed_string_length [simp]: "length fanspeed_string = 5"
  by (simp add: fanspeed_string_def)

lemma all_below_five: "(i::nat) < 5 \<Longrightarrow> i = 0 \<or> i = 1 \<or> i = 2 \<or> i = 3 \<or> i = 4"
  by linarith

interpretation speed_codec: enum_codec fanspeed_val fanspeed_of_index fanspeed_string
  FAND_SPEED_NONE FAND_SPEED_NORMAL fan_speed_string_to_enum fan_speed_enum_to_string
proof unfold_locales
  show "distinct fanspeed_string" by (simp add: fanspeed_string_def)
  show "fanspeed_val (fanspeed_of_index i) = int i" if "i < length fanspeed_string" for i
    using all_below_five [of i] that by (auto simp: fanspeed_of_index_def)
qed (auto simp: fan_speed_string_to_enum_def fan_speed_enum_to_string_def)

lemma fanspeed_val_range: "0 \<le> fanspeed_val s \<longleftrightarrow> s \<noteq> FAND_SPEED_NONE"
  by (cases s) auto

lemma fanspeed_val_lt_5 [simp]: "fanspeed_val s < 5"
  by (cases s) auto

section \<open>Fan direction (\<open>fandirection.h\<close>, \<open>fandirection.c\<close>)\<close>

datatype fandirection = FAND_DIRECTION_F2B | FAND_DIRECTION_B2F

primrec fandirection_val :: "fandirection \<Rightarrow> int" where
  "fandirection_val FAND_DIRECTION_F2B = 0"
| "fandirection_val FAND_DIRECTION_B2F = 1"

definition fandirection_of_index :: "nat \<Rightarrow> fandirection" where
  "fandirection_of_index i = (if i = 0 then FAND_DIRECTION_F2B else FAND_DIRECTION_B2F)"

definition fandirection_string :: "string list" where
  "fandirection_string = [''f2b'', ''b2f'']"

definition fan_direction_string_to_enum :: "string option \<Rightarrow> fandirection" where
  "fan_direction_string_to_enum name =
     (case name of
        None \<Rightarrow> FAND_DIRECTION_F2B
      | Some n \<Rightarrow>
          (case string_scan fandirection_string n 0 of
             Some i \<Rightarrow> fandirection_of_index i
           | None \<Rightarrow> FAND_DIRECTION_F2B))"

definition fan_direction_enum_to_string :: "fandirection \<Rightarrow> string" where
  "fan_direction_enum_to_string d =
     (if 0 \<le> fandirection_val d \<and> fandirection_val d < int (length fandirection_string)
      then fandirection_string ! nat (fandirection_val d)
      else fandirection_string ! nat (fandirection_val FAND_DIRECTION_F2B))"

interpretation direction_codec: enum_codec fandirection_val fandirection_of_index
  fandirection_string FAND_DIRECTION_F2B FAND_DIRECTION_F2B
  fan_direction_string_to_enum fan_direction_enum_to_string
proof unfold_locales
  show "a = b" if "fandirection_val a = fandirection_val b" for a b
    using that by (cases a; cases b) simp_all
qed (auto simp: fandirection_string_def fandirection_of_index_def less_2_cases_iff
       fan_direction_string_to_enum_def fan_direction_enum_to_string_def)

section \<open>Fan status (\<open>fanstatus.h\<close>, \<open>fanstatus.c\<close>)\<close>

text \<open>
  A status can be read before it is first assigned (a \<open>struct locl_fan\<close> comes from
  \<open>malloc\<close> and is not cleared), so the model of the C object has the values outside the
  enumeration too: \<open>FAND_STATUS_OTHER n\<close> holds the value \<open>3 + n\<close>. The enumeration has
  no negative enumerator, so its C type is unsigned.
\<close>

datatype fanstatus =
    FAND_STATUS_UNINITIALIZED
  | FAND_STATUS_OK
  | FAND_STATUS_FAULT
  | FAND_STATUS_OTHER nat

primrec fanstatus_val :: "fanstatus \<Rightarrow> int" where
  "fanstatus_val FAND_STATUS_UNINITIALIZED = 0"
| "fanstatus_val FAND_STATUS_OK = 1"
| "fanstatus_val FAND_STATUS_FAULT = 2"
| "fanstatus_val (FAND_STATUS_OTHER n) = 3 + int n"

lemma fanstatus_val_inject [simp]: "fanstatus_val a = fanstatus_val b \<longleftrightarrow> a = b"
  by (cases a; cases b) simp_all

lemma fanstatus_val_nonneg [simp]: "0 \<le> fanstatus_val s"
  by (cases s) simp_all

instantiation fanstatus :: linorder
begin

definition less_eq_fanstatus :: "fanstatus \<Rightarrow> fanstatus \<Rightarrow> bool" where
  "a \<le> b \<longleftrightarrow> fanstatus_val a \<le> fanstatus_val b"

definition less_fanstatus :: "fanstatus \<Rightarrow> fanstatus \<Rightarrow> bool" where
  "a < b \<longleftrightarrow> fanstatus_val a < fanstatus_val b"

instance
  by standard (auto simp: less_eq_fanstatus_def less_fanstatus_def)

end

lemma fanstatus_least [simp]: "FAND_STATUS_UNINITIALIZED \<le> s"
  by (simp add: less_eq_fanstatus_def)

definition fanstatus_of_index :: "nat \<Rightarrow> fanstatus" where
  "fanstatus_of_index i =
     (if i = 0 then FAND_STATUS_UNINITIALIZED
      else if i = 1 then FAND_STATUS_OK
      else if i = 2 then FAND_STATUS_FAULT
      else FAND_STATUS_OTHER (i - 3))"

definition fanstatus_string :: "string list" where
  "fanstatus_string = [''uninitialized'', ''ok'', ''fault'']"

definition fan_status_string_to_enum :: "string option \<Rightarrow> fanstatus" where
  "fan_status_string_to_enum name =
     (case name of
        None \<Rightarrow> FAND_STATUS_UNINITIALIZED
      | Some n \<Rightarrow>
          (case string_scan fanstatus_string n 0 of
             Some i \<Rightarrow> fanstatus_of_index i
           | None \<Rightarrow> FAND_STATUS_UNINITIALIZED))"

definition fan_status_enum_to_string :: "fanstatus \<Rightarrow> string" where
  "fan_status_enum_to_string status =
     (if fanstatus_val status < int (length fanstatus_string)
      then fanstatus_string ! nat (fanstatus_val status)
      else fanstatus_string ! nat (fanstatus_val FAND_STATUS_UNINITIALIZED))"

interpretation status_codec: enum_codec fanstatus_val fanstatus_of_index fanstatus_string
  FAND_STATUS_UNINITIALIZED FAND_STATUS_UNINITIALIZED
  fan_status_string_to_enum fan_status_enum_to_string
  by unfold_locales (auto simp: fanstatus_string_def fanstatus_of_index_def
       fan_status_string_to_enum_def fan_status_enum_to_string_def)

section \<open>Properties\<close>

text \<open>C39: Speed names. Printing a speed and parsing it back gives the speed again, except
  that "no override" prints as normal; a name parses to a speed exactly if it is in the
  table, and parsing then printing gives it back, unknown names ending up as normal.\<close>

theorem speed_names_roundtrip:
  "fan_speed_string_to_enum (Some (fan_speed_enum_to_string s)) =
     (if s = FAND_SPEED_NONE then FAND_SPEED_NORMAL else s) \<and>
   (fan_speed_string_to_enum (Some n) = FAND_SPEED_NONE \<longleftrightarrow> n \<notin> set fanspeed_string) \<and>
   fan_speed_enum_to_string (fan_speed_string_to_enum (Some n)) =
     (if n \<in> set fanspeed_string then n else ''normal'')"
proof (intro conjI)
  show "fan_speed_string_to_enum (Some (fan_speed_enum_to_string s)) =
      (if s = FAND_SPEED_NONE then FAND_SPEED_NORMAL else s)"
  proof (cases "s = FAND_SPEED_NONE")
    case False
    then show ?thesis by (simp add: speed_codec.parse_print fanspeed_val_range)
  qed (simp add: fan_speed_enum_to_string_def fan_speed_string_to_enum_def fanspeed_string_def
      fanspeed_of_index_def)
  show "fan_speed_string_to_enum (Some n) = FAND_SPEED_NONE \<longleftrightarrow> n \<notin> set fanspeed_string"
    using string_scan_None [of fanspeed_string n 0]
    by (cases "string_scan fanspeed_string n 0")
      (simp_all add: fan_speed_string_to_enum_def fanspeed_of_index_def)
  show "fan_speed_enum_to_string (fan_speed_string_to_enum (Some n)) =
      (if n \<in> set fanspeed_string then n else ''normal'')"
    by (simp add: speed_codec.print_parse speed_codec.parse_unknown)
      (simp add: fan_speed_enum_to_string_def fanspeed_string_def)
qed

text \<open>C40: Status names. The three statuses survive printing and parsing, any other value of
  the C object prints as uninitialized, and so does every name outside the table.\<close>

theorem status_names_roundtrip:
  "fan_status_string_to_enum (Some (fan_status_enum_to_string s)) =
     (case s of FAND_STATUS_OTHER _ \<Rightarrow> FAND_STATUS_UNINITIALIZED | _ \<Rightarrow> s) \<and>
   fan_status_enum_to_string (fan_status_string_to_enum (Some n)) =
     (if n \<in> set fanstatus_string then n else ''uninitialized'')"
proof
  show "fan_status_string_to_enum (Some (fan_status_enum_to_string s)) =
      (case s of FAND_STATUS_OTHER _ \<Rightarrow> FAND_STATUS_UNINITIALIZED | _ \<Rightarrow> s)"
    by (cases s) (simp_all add: fan_status_enum_to_string_def fan_status_string_to_enum_def
        fanstatus_string_def fanstatus_of_index_def)
  show "fan_status_enum_to_string (fan_status_string_to_enum (Some n)) =
      (if n \<in> set fanstatus_string then n else ''uninitialized'')"
    by (simp add: status_codec.print_parse status_codec.parse_unknown)
      (simp add: fan_status_enum_to_string_def fanstatus_string_def)
qed

text \<open>Direction names. Both directions survive printing and parsing; a name outside the
  table means front-to-back.\<close>

lemma direction_names_roundtrip:
  "fan_direction_string_to_enum (Some (fan_direction_enum_to_string d)) = d \<and>
   fan_direction_enum_to_string (fan_direction_string_to_enum (Some n)) =
     (if n \<in> set fandirection_string then n else ''f2b'')"
proof
  show "fan_direction_string_to_enum (Some (fan_direction_enum_to_string d)) = d"
    by (cases d) (simp_all add: direction_codec.parse_print fandirection_string_def)
  show "fan_direction_enum_to_string (fan_direction_string_to_enum (Some n)) =
      (if n \<in> set fandirection_string then n else ''f2b'')"
    by (simp add: direction_codec.print_parse direction_codec.parse_unknown)
      (simp add: fan_direction_enum_to_string_def fandirection_string_def)
qed

end
