(* ===== verification/Containers.thy ===== *)
theory Containers
  imports Prelude "HOL-Library.Multiset"
begin

text \<open>
  The two Open vSwitch containers the daemon stores its state in, as the values they hold.
  A \<open>struct shash\<close> maps strings to \<open>void *\<close> and may hold several nodes with one name;
  a \<open>struct smap\<close> maps strings to strings.

  The containers' code is not part of the repository. A hash table is therefore an
  association list of its nodes, and the one thing the daemon can observe beyond the
  nodes, the order of a traversal, depends on a parameter \<open>bucket\<close>: the bucket of a name
  in a table of a given size. \<open>SHASH_FOR_EACH\<close> walks the buckets in order, and
  \<open>shash_find\<close> answers the first node of that walk with the name.
\<close>

section \<open>Addresses and nodes\<close>

type_synonym addr = nat

type_synonym shash_node = "string \<times> addr"
type_synonym shash = "shash_node list"

type_synonym bucket_fun = "nat \<Rightarrow> string \<Rightarrow> nat"

definition shash_nodes :: "bucket_fun \<Rightarrow> shash \<Rightarrow> shash_node list" where
  "shash_nodes bucket sh = sort_key (\<lambda>n. bucket (length sh) (fst n)) sh"

definition shash_add :: "shash \<Rightarrow> string \<Rightarrow> addr \<Rightarrow> shash" where
  "shash_add sh name data = (name, data) # sh"

definition shash_find :: "bucket_fun \<Rightarrow> shash \<Rightarrow> string \<Rightarrow> shash_node option" where
  "shash_find bucket sh name = find (\<lambda>n. fst n = name) (shash_nodes bucket sh)"

definition shash_find_data :: "bucket_fun \<Rightarrow> shash \<Rightarrow> string \<Rightarrow> addr option" where
  "shash_find_data bucket sh name = map_option snd (shash_find bucket sh name)"

definition shash_delete :: "shash \<Rightarrow> shash_node \<Rightarrow> shash" where
  "shash_delete sh n = remove1 n sh"

definition shash_is_empty :: "shash \<Rightarrow> bool" where
  "shash_is_empty sh \<longleftrightarrow> sh = []"

lemma mset_shash_nodes [simp]: "mset (shash_nodes bucket sh) = mset sh"
  by (simp add: shash_nodes_def)

lemma set_shash_nodes [simp]: "set (shash_nodes bucket sh) = set sh"
  by (simp add: shash_nodes_def)

lemma length_shash_nodes [simp]: "length (shash_nodes bucket sh) = length sh"
  by (simp add: shash_nodes_def)

lemma distinct_shash_nodes [simp]: "distinct (shash_nodes bucket sh) = distinct sh"
  by (simp add: shash_nodes_def)

lemma distinct_map_shash_nodes [simp]:
  "distinct (map f (shash_nodes bucket sh)) = distinct (map f sh)"
  by (metis mset_shash_nodes mset_eq_imp_distinct_iff mset_map)

lemma shash_nodes_Nil [simp]: "shash_nodes bucket [] = []"
  by (simp add: shash_nodes_def)

lemma shash_nodes_single [simp]: "shash_nodes bucket [n] = [n]"
  by (simp add: shash_nodes_def)

lemma shash_nodes_eq_Nil [simp]: "shash_nodes bucket sh = [] \<longleftrightarrow> sh = []"
  by (metis length_0_conv length_shash_nodes)

lemma shash_find_None: "shash_find bucket sh name = None \<longleftrightarrow> name \<notin> fst ` set sh"
  by (force simp: shash_find_def find_None_iff)

lemma shash_find_SomeD:
  assumes "shash_find bucket sh name = Some n" shows "n \<in> set sh \<and> fst n = name"
proof -
  from assms have "n \<in> set (shash_nodes bucket sh) \<and> fst n = name"
    unfolding shash_find_def
    by (auto simp: find_Some_iff in_set_conv_nth simp del: set_shash_nodes length_shash_nodes)
  then show ?thesis by simp
qed

lemma shash_find_unique:
  assumes "distinct (map fst sh)" and "(name, d) \<in> set sh"
  shows "shash_find bucket sh name = Some (name, d)"
proof -
  from assms(2) obtain n where n: "shash_find bucket sh name = Some n"
    using shash_find_None [of bucket sh name] by force
  from shash_find_SomeD [OF n] assms have "n = (name, d)"
    by (cases n) (auto dest: eq_key_imp_eq_value)
  with n show ?thesis by simp
qed

lemma shash_find_data_None: "shash_find_data bucket sh name = None \<longleftrightarrow> name \<notin> fst ` set sh"
  by (simp add: shash_find_data_def shash_find_None)

lemma shash_find_data_SomeD: "shash_find_data bucket sh name = Some d \<Longrightarrow> (name, d) \<in> set sh"
  by (auto simp: shash_find_data_def dest!: shash_find_SomeD)

section \<open>String maps\<close>

type_synonym smap = "string \<rightharpoonup> string"

definition smap_get :: "smap \<Rightarrow> string \<Rightarrow> string option" where
  "smap_get m key = m key"

definition smap_replace :: "smap \<Rightarrow> string \<Rightarrow> string \<Rightarrow> smap" where
  "smap_replace m key value = m(key \<mapsto> value)"

definition smap_remove :: "smap \<Rightarrow> string \<Rightarrow> smap" where
  "smap_remove m key = m(key := None)"

lemma smap_get_replace [simp]:
  "smap_get (smap_replace m k v) k' = (if k' = k then Some v else smap_get m k')"
  by (simp add: smap_get_def smap_replace_def)

lemma smap_get_remove [simp]:
  "smap_get (smap_remove m k) k' = (if k' = k then None else smap_get m k')"
  by (simp add: smap_get_def smap_remove_def)

text \<open>
  The laws of a map from strings to strings that clients of an \<open>smap\<close> rely on, and what
  follows from them.
\<close>

locale string_map =
  fixes get :: "'m \<Rightarrow> string \<Rightarrow> string option"
    and put :: "'m \<Rightarrow> string \<Rightarrow> string \<Rightarrow> 'm"
    and del :: "'m \<Rightarrow> string \<Rightarrow> 'm"
  assumes get_put: "get (put m k v) k' = (if k' = k then Some v else get m k')"
    and get_del: "get (del m k) k' = (if k' = k then None else get m k')"
begin

lemma get_put_twice: "get (put (put m k v) k w) k' = get (put m k w) k'"
  by (simp add: get_put)

lemma get_del_put: "get (del (put m k v) k) k' = get (del m k) k'"
  by (simp add: get_put get_del)

lemma get_put_del: "get (put (del m k) k v) k' = get (put m k v) k'"
  by (simp add: get_put get_del)

lemma get_others: "k' \<noteq> k \<Longrightarrow> get (put m k v) k' = get m k' \<and> get (del m k) k' = get m k'"
  by (simp add: get_put get_del)

end

interpretation smap: string_map smap_get smap_replace smap_remove
  by unfold_locales simp_all

end
