(* ===== verification/Fand_State.thy ===== *)
theory Fand_State
  imports Enums Containers
begin

text \<open>
  The daemon's data: the hardware description it reads through the config-yaml library
  (the fields of \<open>YamlFan\<close>, \<open>YamlFanFru\<close> and \<open>YamlFanInfo\<close> that the source uses),
  its own structures (\<open>include/fand-locl.h\<close>), the rows of the database replica that it
  reads and writes, the services it calls, and the state of the process
  (the globals of \<open>src/fand.c\<close>).
\<close>

section \<open>Hardware description\<close>

text \<open>
  An \<open>i2c_bit_op *\<close> is passed on to the library and never looked into, so it is an opaque
  identity; \<open>None\<close> is NULL. A \<open>YamlFan\<close> carries its address, since the code compares
  pointers to fans.
\<close>

type_synonym i2c_bit_op = nat

record yaml_fan =
  yf_addr :: addr
  yf_name :: string
  yf_fan_speed :: "i2c_bit_op option"
  yf_fan_speed_msb :: "i2c_bit_op option"
  yf_fan_speed_control :: "i2c_bit_op option"
  yf_fan_fault :: "i2c_bit_op option"

text \<open>\<open>fru_fans\<close>: the fans before the terminating NULL of the \<open>fans\<close> array.\<close>

record yaml_fan_fru =
  fru_fans :: "yaml_fan list"
  fru_fan_speed_control :: "i2c_bit_op option"
  fru_fan_leds :: "i2c_bit_op option"
  fru_fan_direction_detect :: "i2c_bit_op option"
  fru_fan_present :: "i2c_bit_op option"

text \<open>
  The type of control: one per subsystem, per FRU or per fan. The code has a branch for
  any other value of the field.
\<close>

datatype fan_control_type = SINGLE | PER_FRU | PER_FAN | CONTROL_OTHER nat

record speed_settings =
  set_slow :: u32
  set_normal :: u32
  set_medium :: u32
  set_fast :: u32
  set_max :: u32

record led_values =
  led_off :: u32
  led_good :: u32
  led_fault :: u32

record yaml_fan_info =
  number_fan_frus :: nat
  fan_speed_control_type :: fan_control_type
  fan_speed_control :: "i2c_bit_op option"
  fan_speed_settings :: speed_settings
  fan_speed_multiplier :: c_int
  fan_speed_numerator :: c_int
  fan_led :: "i2c_bit_op option"
  fan_led_values :: led_values
  direction_f2b :: u32

section \<open>The daemon's structures (\<open>include/fand-locl.h\<close>)\<close>

record locl_subsystem =
  sub_name :: string
  sub_marked :: bool
  sub_valid :: bool
  sub_parent_subsystem :: "addr option"
  sub_fan_speed :: fanspeed           \<comment> \<open>from tempd results\<close>
  sub_fan_speed_override :: fanspeed  \<comment> \<open>as configured by user\<close>
  sub_speed :: fanspeed               \<comment> \<open>result of the two\<close>
  sub_multiplier :: c_int
  sub_numerator :: c_int
  subsystem_fans :: shash

record locl_fan =
  fan_name :: string
  fan_subsystem :: addr
  fan_yaml :: yaml_fan
  fan_speed :: fanspeed
  fan_direction :: string
  fan_rpm :: c_int
  fan_status :: fanstatus

section \<open>The database replica\<close>

record ovsrec_fan =
  row_uuid :: nat
  row_name :: string
  row_status :: string
  row_direction :: string
  row_speed :: string
  row_rpm :: "s64 option"

text \<open>A subsystem row: the sensors are given by their \<open>fan_state\<close> columns.\<close>

record ovsrec_subsystem =
  cfg_name :: string
  cfg_hw_desc_dir :: "string option"
  cfg_other_config :: smap
  cfg_temp_sensors :: "string list"
  cfg_fans :: "nat list"

record ovsrec_daemon =
  daemon_name :: string
  daemon_cur_hw :: int

record ovsdb =
  db_fans :: "ovsrec_fan list"
  db_subsystems :: "ovsrec_subsystem list"
  db_daemons :: "ovsrec_daemon list"
  db_seqno :: u32

section \<open>Services\<close>

text \<open>
  What the daemon calls and this repository does not define, as a record of functions.
  \<open>'y\<close> is the state behind the yaml handle, \<open>'w\<close> that of the i2c bus and the devices on
  it. Only \<open>yaml_add_subsystem\<close> and the two parsers take part in changing the handle;
  the getters read it and register accesses change only the bus. A read is given the
  previous content of its result cell, since a failing read may leave it as it was.
  \<open>junk_u32\<close> and \<open>junk_fan\<close> are the contents of an uninitialised stack cell and of
  freshly allocated memory, \<open>commit_ok\<close> the database server's verdict on a transaction.
\<close>

record ('y, 'w) services =
  yaml_new_config_handle :: 'y
  yaml_add_subsystem :: "'y \<Rightarrow> string \<Rightarrow> string \<Rightarrow> int \<times> 'y"
  yaml_parse_devices :: "'y \<Rightarrow> string \<Rightarrow> int \<times> 'y"
  yaml_parse_fans :: "'y \<Rightarrow> string \<Rightarrow> int \<times> 'y"
  yaml_get_fan_info :: "'y \<Rightarrow> string \<Rightarrow> yaml_fan_info option"
  yaml_get_fan_fru_count :: "'y \<Rightarrow> string \<Rightarrow> int"
  yaml_get_fan_fru :: "'y \<Rightarrow> string \<Rightarrow> nat \<Rightarrow> yaml_fan_fru option"
  i2c_reg_read :: "'y \<Rightarrow> 'w \<Rightarrow> string \<Rightarrow> i2c_bit_op option \<Rightarrow> u32 \<Rightarrow> int \<times> u32 \<times> 'w"
  i2c_reg_write :: "'y \<Rightarrow> 'w \<Rightarrow> string \<Rightarrow> i2c_bit_op \<Rightarrow> u8 \<Rightarrow> int \<times> 'w"
  junk_u32 :: "'w \<Rightarrow> u32"
  junk_fan :: "addr \<Rightarrow> locl_fan"
  hash_bucket :: bucket_fun
  commit_ok :: "'w \<Rightarrow> ovsdb \<Rightarrow> ovsdb \<Rightarrow> bool"

section \<open>The process\<close>

text \<open>The events reported through \<open>log_event\<close>.\<close>

datatype event =
    FAN_COUNT nat string           \<comment> \<open>count, subsystem\<close>
  | FAN_SPEED string string u8     \<comment> \<open>subsystem, speedval, value\<close>

text \<open>
  The globals of \<open>fand.c\<close>, the objects on the heap by address, and the addresses not
  yet handed out (\<open>malloc\<close> answers \<open>next_addr\<close>; it is taken never to fail, as the code
  takes it, and freed addresses are not handed out again, so an access to freed memory
  always shows as \<open>DanglingDeref\<close>).
\<close>

record ('y, 'w) fand =
  subsystem_data :: shash
  fan_data :: shash
  subsystem_heap :: "addr \<rightharpoonup> locl_subsystem"
  fan_heap :: "addr \<rightharpoonup> locl_fan"
  next_addr :: addr
  yaml_handle :: 'y
  bus :: 'w
  idl_db :: ovsdb
  idl_seqno :: u32
  cur_hw_set :: bool
  events :: "event list"

definition load :: "('a \<rightharpoonup> 'b) \<Rightarrow> 'a \<Rightarrow> 'b res" where
  "load heap a = (case heap a of None \<Rightarrow> Inl DanglingDeref | Some x \<Rightarrow> Inr x)"

lemma load_Some [simp, res_simps]: "heap a = Some x \<Longrightarrow> load heap a = Inr x"
  by (simp add: load_def)

lemma load_eq_Inr [simp]: "load heap a = Inr x \<longleftrightarrow> heap a = Some x"
  by (simp add: load_def split: option.splits)

lemma load_eq_Inl: "load heap a = Inl e \<longleftrightarrow> heap a = None \<and> e = DanglingDeref"
  by (auto simp: load_def split: option.splits)

definition store_sub :: "addr \<Rightarrow> locl_subsystem \<Rightarrow> ('y, 'w) fand \<Rightarrow> ('y, 'w) fand" where
  "store_sub a x s = s\<lparr>subsystem_heap := (subsystem_heap s)(a \<mapsto> x)\<rparr>"

definition store_fan :: "addr \<Rightarrow> locl_fan \<Rightarrow> ('y, 'w) fand \<Rightarrow> ('y, 'w) fand" where
  "store_fan a x s = s\<lparr>fan_heap := (fan_heap s)(a \<mapsto> x)\<rparr>"

definition log_event :: "event \<Rightarrow> ('y, 'w) fand \<Rightarrow> ('y, 'w) fand" where
  "log_event e s = s\<lparr>events := events s @ [e]\<rparr>"

end
