(* ===== verification/Bench.thy ===== *)
theory Bench
  imports Fand_State
begin

text \<open>
  A concrete platform, on which the witnesses of the development evaluate the code: one
  subsystem \<open>base\<close> with two fan FRUs, the first with two fans, a status LED, a presence
  and a direction register, the second with one fan and none of these. The yaml handle
  is the list of loaded subsystems, a device is its byte registers and the log of the writes
  it received. The platform is an instance of the services, not a model of any code.
\<close>

section \<open>Description\<close>

definition bench_fan :: "addr \<Rightarrow> string \<Rightarrow> i2c_bit_op \<Rightarrow> i2c_bit_op option \<Rightarrow> i2c_bit_op \<Rightarrow> yaml_fan"
where
  "bench_fan a name rpm msb fault =
     \<lparr>yf_addr = a, yf_name = name, yf_fan_speed = Some rpm, yf_fan_speed_msb = msb,
      yf_fan_speed_control = Some (rpm + 500), yf_fan_fault = Some fault\<rparr>"

definition bench_frus :: "yaml_fan_fru list" where
  "bench_frus =
     [\<lparr>fru_fans = [bench_fan 101 ''1L'' 21 None 31, bench_fan 102 ''1R'' 22 (Some 26) 32],
       fru_fan_speed_control = Some 11, fru_fan_leds = Some 41,
       fru_fan_direction_detect = Some 51, fru_fan_present = Some 61\<rparr>,
      \<lparr>fru_fans = [bench_fan 103 ''2L'' 23 None 33],
       fru_fan_speed_control = Some 12, fru_fan_leds = None,
       fru_fan_direction_detect = None, fru_fan_present = None\<rparr>]"

definition bench_info :: yaml_fan_info where
  "bench_info =
     \<lparr>number_fan_frus = 2, fan_speed_control_type = PER_FRU, fan_speed_control = None,
      fan_speed_settings = \<lparr>set_slow = 0x11, set_normal = 0x13, set_medium = 0x14,
                             set_fast = 0x15, set_max = 0x17\<rparr>,
      fan_speed_multiplier = 60, fan_speed_numerator = 0, fan_led = Some 40,
      fan_led_values = \<lparr>led_off = 0, led_good = 1, led_fault = 2\<rparr>, direction_f2b = 1\<rparr>"

section \<open>Device\<close>

record bench_dev =
  dev_regs :: "i2c_bit_op \<Rightarrow> u8"
  dev_writes :: "(i2c_bit_op \<times> u8) list"

definition bench_read ::
  "string list \<Rightarrow> bench_dev \<Rightarrow> string \<Rightarrow> i2c_bit_op option \<Rightarrow> u32 \<Rightarrow> int \<times> u32 \<times> bench_dev" where
  "bench_read y w name oper c =
     (case oper of None \<Rightarrow> (-1, c, w) | Some r \<Rightarrow> (0, ucast (dev_regs w r), w))"

definition bench_write ::
  "string list \<Rightarrow> bench_dev \<Rightarrow> string \<Rightarrow> i2c_bit_op \<Rightarrow> u8 \<Rightarrow> int \<times> bench_dev" where
  "bench_write y w name r v = (0, w\<lparr>dev_writes := dev_writes w @ [(r, v)]\<rparr>)"

section \<open>Services\<close>

text \<open>Only \<open>base\<close> has files; fresh memory holds a fan that is off.\<close>

definition bench_junk_fan :: locl_fan where
  "bench_junk_fan =
     \<lparr>fan_name = '''', fan_subsystem = 0, fan_yaml = bench_fan 0 '''' 0 None 0,
      fan_speed = FAND_SPEED_SLOW, fan_direction = '''', fan_rpm = 0,
      fan_status = FAND_STATUS_UNINITIALIZED\<rparr>"

definition bench :: "(string list, bench_dev) services" where
  "bench =
     \<lparr>yaml_new_config_handle = [],
      yaml_add_subsystem = (\<lambda>y name dir. if name = ''base'' then (0, name # y) else (-1, y)),
      yaml_parse_devices = (\<lambda>y name. (0, y)),
      yaml_parse_fans = (\<lambda>y name. (if name = ''base'' \<and> name \<in> set y then 0 else -1, y)),
      yaml_get_fan_info = (\<lambda>y name. if name \<in> set y then Some bench_info else None),
      yaml_get_fan_fru_count = (\<lambda>y name. if name \<in> set y then 2 else -1),
      yaml_get_fan_fru = (\<lambda>y name i.
        if name \<in> set y \<and> i < 2 then Some (bench_frus ! i) else None),
      i2c_reg_read = bench_read, i2c_reg_write = bench_write,
      junk_u32 = (\<lambda>_. 0), junk_fan = (\<lambda>_. bench_junk_fan),
      hash_bucket = (\<lambda>_ _. 0), commit_ok = (\<lambda>_ _ _. True)\<rparr>"

text \<open>All registers read as zero, except the first FRU's presence and the tachometers.\<close>

definition bench_regs :: "i2c_bit_op \<Rightarrow> u8" where
  "bench_regs = (\<lambda>_. 0)(21 := 100, 22 := 90, 26 := 1, 23 := 110, 61 := 1, 51 := 1)"

definition bench_bus :: bench_dev where
  "bench_bus = \<lparr>dev_regs = bench_regs, dev_writes = []\<rparr>"

section \<open>Processes\<close>

text \<open>A database with the subsystem and the daemon's own row, and no fan rows yet.\<close>

definition bench_cfg :: ovsrec_subsystem where
  "bench_cfg = \<lparr>cfg_name = ''base'', cfg_hw_desc_dir = Some ''/etc/openswitch/platform'',
     cfg_other_config = Map.empty, cfg_temp_sensors = [''normal'', ''fast''], cfg_fans = []\<rparr>"

definition bench_db :: ovsdb where
  "bench_db = \<lparr>db_fans = [], db_subsystems = [bench_cfg],
     db_daemons = [\<lparr>daemon_name = ''ops-fand'', daemon_cur_hw = 0\<rparr>], db_seqno = 7\<rparr>"

text \<open>A process with the subsystem registered and its fans not yet added.\<close>

definition bench_sub :: "fanspeed \<Rightarrow> fanspeed \<Rightarrow> locl_subsystem" where
  "bench_sub override sensors =
     \<lparr>sub_name = ''base'', sub_marked = True, sub_valid = True, sub_parent_subsystem = None,
      sub_fan_speed = sensors, sub_fan_speed_override = override, sub_speed = FAND_SPEED_SLOW,
      sub_multiplier = 60, sub_numerator = 0, subsystem_fans = []\<rparr>"

definition bench_fand :: "locl_subsystem \<Rightarrow> (string list, bench_dev) fand" where
  "bench_fand sub =
     \<lparr>subsystem_data = [(''base'', 1)], fan_data = subsystem_fans sub,
      subsystem_heap = [1 \<mapsto> sub], fan_heap = Map.empty, next_addr = 2,
      yaml_handle = [''base''], bus = bench_bus, idl_db = bench_db, idl_seqno = 7,
      cur_hw_set = False, events = []\<rparr>"

lemmas bench_services = bench_def bench_read_def bench_write_def
lemmas bench_description = bench_info_def bench_frus_def bench_fan_def
lemmas bench_process = bench_fand_def bench_sub_def bench_bus_def bench_regs_def

lemma bench_fields [simp]:
  "yaml_get_fan_info bench y name = (if name \<in> set y then Some bench_info else None)"
  "yaml_get_fan_fru_count bench y name = (if name \<in> set y then 2 else -1)"
  "yaml_get_fan_fru bench y name i =
     (if name \<in> set y \<and> i < 2 then Some (bench_frus ! i) else None)"
  "yaml_add_subsystem bench y name dir = (if name = ''base'' then (0, name # y) else (-1, y))"
  "yaml_parse_devices bench y name = (0, y)"
  "yaml_parse_fans bench y name = (if name = ''base'' \<and> name \<in> set y then 0 else -1, y)"
  "i2c_reg_read bench = bench_read" "i2c_reg_write bench = bench_write"
  "junk_u32 bench w = 0" "junk_fan bench a = bench_junk_fan"
  "hash_bucket bench = (\<lambda>_ _. 0)" "commit_ok bench w db view = True"
  "yaml_new_config_handle bench = []"
  by (simp_all add: bench_def)

lemma bench_info_simps [simp]:
  "number_fan_frus bench_info = 2" "fan_speed_multiplier bench_info = 60"
  "fan_speed_numerator bench_info = 0"
  by (simp_all add: bench_info_def)

lemma bench_frus_all:
  "(\<forall>fru \<in> set bench_frus. \<forall>fan \<in> set (fru_fans fru). P fan) \<longleftrightarrow>
     P (bench_fan 101 ''1L'' 21 None 31) \<and> P (bench_fan 102 ''1R'' 22 (Some 26) 32) \<and>
     P (bench_fan 103 ''2L'' 23 None 33)"
  by (simp add: bench_frus_def)

lemma bench_fan_name [simp]: "yf_name (bench_fan a name rpm msb fault) = name"
  by (simp add: bench_fan_def)

end
