(* ===== verification/Physfan_Speed.thy ===== *)
theory Physfan_Speed
  imports Bench
begin

text \<open>
  Setting the fan speed of a subsystem: \<open>fand_set_fanspeed\<close> of \<open>src/physfan.c\<close>. The
  speed in force is chosen from the user's override and the sensors' demand, recorded, and
  its register value written to every speed control of the subsystem. The register writes
  are shown to be those of a short specification, \<open>speed_controls\<close>.
\<close>

section \<open>The code\<close>

text \<open>Lines 127 to 137: which speed wins.\<close>

definition effective_speed :: "fanspeed \<Rightarrow> fanspeed \<Rightarrow> fanspeed" where
  "effective_speed override sensors =
     (let speed = override;
          speed = (if speed = FAND_SPEED_NONE \<or> sensors = FAND_SPEED_MAX
                   then sensors else speed)
      in if speed = FAND_SPEED_NONE then FAND_SPEED_NORMAL else speed)"

text \<open>
  Lines 150 to 198: the name and the register value of a speed; the value is assigned to
  an \<open>unsigned char\<close>.
\<close>

definition speed_setting :: "yaml_fan_info \<Rightarrow> fanspeed \<Rightarrow> string \<times> u8" where
  "speed_setting info speed =
     (case speed of
        FAND_SPEED_SLOW \<Rightarrow> (''SLOW'', ucast (set_slow (fan_speed_settings info)))
      | FAND_SPEED_MEDIUM \<Rightarrow> (''MEDIUM'', ucast (set_medium (fan_speed_settings info)))
      | FAND_SPEED_FAST \<Rightarrow> (''FAST'', ucast (set_fast (fan_speed_settings info)))
      | FAND_SPEED_MAX \<Rightarrow> (''MAX'', ucast (set_max (fan_speed_settings info)))
      | _ \<Rightarrow> (''NORMAL'', ucast (set_normal (fan_speed_settings info))))"

text \<open>A register write whose return code the caller drops.\<close>

definition reg_write ::
  "('y, 'w) services \<Rightarrow> 'y \<Rightarrow> string \<Rightarrow> u8 \<Rightarrow> i2c_bit_op \<Rightarrow> 'w \<Rightarrow> 'w" where
  "reg_write E y name v oper w = snd (i2c_reg_write E y w name oper v)"

text \<open>Lines 221 to 229: the controls of the fans of one FRU.\<close>

fun set_fan_speeds ::
  "('y, 'w) services \<Rightarrow> 'y \<Rightarrow> string \<Rightarrow> u8 \<Rightarrow> yaml_fan list \<Rightarrow> 'w \<Rightarrow> 'w" where
  "set_fan_speeds E y name v [] w = w"
| "set_fan_speeds E y name v (fan # fans) w =
     (case yf_fan_speed_control fan of
        None \<Rightarrow> set_fan_speeds E y name v fans w
      | Some oper \<Rightarrow> set_fan_speeds E y name v fans (reg_write E y name v oper w))"

text \<open>Lines 210 to 236: the loop over the FRU indices; an invalid type returns at once.\<close>

fun set_fru_speeds ::
  "('y, 'w) services \<Rightarrow> 'y \<Rightarrow> string \<Rightarrow> fan_control_type \<Rightarrow> u8 \<Rightarrow> nat list \<Rightarrow> 'w \<Rightarrow> 'w res"
where
  "set_fru_speeds E y name ct v [] w = Inr w"
| "set_fru_speeds E y name ct v (idx # rest) w =
     (case ct of
        PER_FRU \<Rightarrow>
          res_bind (deref (yaml_get_fan_fru E y name idx)) (\<lambda>fru.
            case fru_fan_speed_control fru of
              None \<Rightarrow> set_fru_speeds E y name ct v rest w
            | Some oper \<Rightarrow> set_fru_speeds E y name ct v rest (reg_write E y name v oper w))
      | PER_FAN \<Rightarrow>
          res_bind (deref (yaml_get_fan_fru E y name idx)) (\<lambda>fru.
            set_fru_speeds E y name ct v rest (set_fan_speeds E y name v (fru_fans fru) w))
      | _ \<Rightarrow> Inr w)"

definition write_speed ::
  "('y, 'w) services \<Rightarrow> 'y \<Rightarrow> string \<Rightarrow> yaml_fan_info \<Rightarrow> u8 \<Rightarrow> 'w \<Rightarrow> 'w res" where
  "write_speed E y name info v w =
     (case fan_speed_control_type info of
        SINGLE \<Rightarrow>
          (case fan_speed_control info of
             None \<Rightarrow> Inr w
           | Some oper \<Rightarrow> Inr (reg_write E y name v oper w))
      | ct \<Rightarrow> set_fru_speeds E y name ct v [0..<number_fan_frus info] w)"

definition fand_set_fanspeed ::
  "('y, 'w) services \<Rightarrow> addr \<Rightarrow> ('y, 'w) fand \<Rightarrow> ('y, 'w) fand res" where
  "fand_set_fanspeed E a s =
     res_bind (load (subsystem_heap s) a) (\<lambda>sub.
       let speed = effective_speed (sub_fan_speed_override sub) (sub_fan_speed sub);
           s = store_sub a (sub\<lparr>sub_speed := speed\<rparr>) s
       in case yaml_get_fan_info E (yaml_handle s) (sub_name sub) of
            None \<Rightarrow> Inr s
          | Some info \<Rightarrow>
              let (label, v) = speed_setting info speed;
                  s = log_event (FAN_SPEED (sub_name sub) label v) s
              in res_bind (write_speed E (yaml_handle s) (sub_name sub) info v (bus s)) (\<lambda>w.
                   Inr (s\<lparr>bus := w\<rparr>)))"

section \<open>The specification of the writes\<close>

text \<open>The FRUs of a subsystem, when the library has one for every index.\<close>

definition described_frus ::
  "('y, 'w) services \<Rightarrow> 'y \<Rightarrow> string \<Rightarrow> nat \<Rightarrow> yaml_fan_fru list option" where
  "described_frus E y name n = those (map (yaml_get_fan_fru E y name) [0..<n])"

lemma bench_described_frus [simp]:
  "name \<in> set y \<Longrightarrow> described_frus bench y name 2 = Some bench_frus"
  by (simp add: described_frus_def bench_frus_def numeral_2_eq_2)

definition the_list :: "'a option \<Rightarrow> 'a list" where
  "the_list p = (case p of None \<Rightarrow> [] | Some x \<Rightarrow> [x])"

lemma the_list_simps [simp]: "the_list None = []" "the_list (Some x) = [x]"
  by (simp_all add: the_list_def)

text \<open>The speed controls of a subsystem, in the order they are written.\<close>

definition speed_controls :: "yaml_fan_info \<Rightarrow> yaml_fan_fru list \<Rightarrow> i2c_bit_op list" where
  "speed_controls info frus =
     (case fan_speed_control_type info of
        SINGLE \<Rightarrow> the_list (fan_speed_control info)
      | PER_FRU \<Rightarrow> concat (map (the_list \<circ> fru_fan_speed_control) frus)
      | PER_FAN \<Rightarrow> concat (map (the_list \<circ> yf_fan_speed_control) (concat (map fru_fans frus)))
      | CONTROL_OTHER _ \<Rightarrow> [])"

lemma set_fan_speeds_eq:
  "set_fan_speeds E y name v fans w =
     fold (reg_write E y name v) (concat (map (the_list \<circ> yf_fan_speed_control) fans)) w"
  by (induction fans arbitrary: w) (auto split: option.splits)

lemma set_fru_speeds_eq:
  assumes "map (yaml_get_fan_fru E y name) idxs = map Some frus"
    and "fan_speed_control_type info = ct" and "ct \<noteq> SINGLE"
  shows "set_fru_speeds E y name ct v idxs w =
    Inr (fold (reg_write E y name v) (speed_controls info frus) w)"
  using assms(1)
proof (induction idxs arbitrary: frus w)
  case Nil
  then show ?case using assms(2,3) by (auto simp: speed_controls_def split: fan_control_type.splits)
next
  case (Cons i idxs)
  then obtain fru rest where frus: "frus = fru # rest"
    and fru: "yaml_get_fan_fru E y name i = Some fru"
    and rest: "map (yaml_get_fan_fru E y name) idxs = map Some rest"
    by (auto simp: Cons_eq_map_conv)
  show ?case
    using assms(2,3) fru Cons.IH [OF rest]
    by (auto simp: frus speed_controls_def set_fan_speeds_eq
        split: fan_control_type.splits option.splits)
qed

lemma write_speed_eq:
  assumes "described_frus E y name (number_fan_frus info) = Some frus"
  shows "write_speed E y name info v w =
    Inr (fold (reg_write E y name v) (speed_controls info frus) w)"
proof (cases "fan_speed_control_type info = SINGLE")
  case True
  then show ?thesis by (auto simp: write_speed_def speed_controls_def split: option.splits)
next
  case False
  moreover have "map (yaml_get_fan_fru E y name) [0..<number_fan_frus info] = map Some frus"
    using assms by (simp add: described_frus_def those_eq_Some)
  ultimately show ?thesis
    using set_fru_speeds_eq [of E y name _ frus info]
    by (auto simp: write_speed_def split: fan_control_type.splits)
qed

section \<open>Lemmas\<close>

lemma effective_speed_eq:
  "effective_speed override sensors =
     (if sensors = FAND_SPEED_MAX then FAND_SPEED_MAX
      else if override \<noteq> FAND_SPEED_NONE then override
      else if sensors \<noteq> FAND_SPEED_NONE then sensors
      else FAND_SPEED_NORMAL)"
  by (simp add: effective_speed_def)

lemma effective_speed_not_none [simp]: "effective_speed override sensors \<noteq> FAND_SPEED_NONE"
  by (simp add: effective_speed_eq)

text \<open>
  The complete effect: the recorded speed, one log entry and the writes; nothing else.
\<close>

lemma fand_set_fanspeed_eq:
  assumes "subsystem_heap s a = Some sub"
    and "yaml_get_fan_info E (yaml_handle s) (sub_name sub) = Some info"
    and "described_frus E (yaml_handle s) (sub_name sub) (number_fan_frus info) = Some frus"
    and "speed = effective_speed (sub_fan_speed_override sub) (sub_fan_speed sub)"
    and "speed_setting info speed = (label, v)"
  shows "fand_set_fanspeed E a s = Inr (s\<lparr>
      subsystem_heap := (subsystem_heap s)(a \<mapsto> sub\<lparr>sub_speed := speed\<rparr>),
      bus := fold (reg_write E (yaml_handle s) (sub_name sub) v) (speed_controls info frus) (bus s),
      events := events s @ [FAN_SPEED (sub_name sub) label v]\<rparr>)"
  using assms
  by (simp add: fand_set_fanspeed_def store_sub_def log_event_def Let_def write_speed_eq
      split del: prod.splits)

text \<open>Whatever the library answers, only these four parts of the state can change.\<close>

lemma fand_set_fanspeed_frame:
  assumes "fand_set_fanspeed E a s = Inr t"
  obtains sub w ev where "subsystem_heap s a = Some sub"
    and "t = s\<lparr>subsystem_heap := (subsystem_heap s)(a \<mapsto> sub\<lparr>sub_speed :=
            effective_speed (sub_fan_speed_override sub) (sub_fan_speed sub)\<rparr>),
          events := ev, bus := w\<rparr>"
proof -
  from assms obtain sub where sub: "subsystem_heap s a = Some sub"
    by (auto simp: fand_set_fanspeed_def res_bind_eq_Inr)
  show thesis
  proof (cases "yaml_get_fan_info E (yaml_handle s) (sub_name sub)")
    case None
    with assms sub that [OF sub, where w = "bus s" and ev = "events s"] show ?thesis
      by (cases s) (auto simp: fand_set_fanspeed_def store_sub_def Let_def)
  next
    case (Some info)
    with assms sub that [OF sub] show ?thesis
      by (auto simp: fand_set_fanspeed_def store_sub_def log_event_def Let_def res_bind_eq_Inr
          split: prod.splits)
  qed
qed

section \<open>Properties\<close>

text \<open>C12: Setting the fan speed. For a subsystem whose description the library has, the speed
  in force is MAX when the sensors ask for it, else the user's override if there is one, else
  what the sensors ask for; it is recorded, reported in one event, and its register value is
  written once to every speed control of the subsystem, in the order of the description.
  Nothing else of the process changes.\<close>

theorem fand_set_fanspeed_refines:
  assumes "subsystem_heap s a = Some sub"
    and "yaml_get_fan_info E (yaml_handle s) (sub_name sub) = Some info"
    and "described_frus E (yaml_handle s) (sub_name sub) (number_fan_frus info) = Some frus"
    and "speed =
      (if sub_fan_speed sub = FAND_SPEED_MAX then FAND_SPEED_MAX
       else if sub_fan_speed_override sub \<noteq> FAND_SPEED_NONE then sub_fan_speed_override sub
       else if sub_fan_speed sub \<noteq> FAND_SPEED_NONE then sub_fan_speed sub
       else FAND_SPEED_NORMAL)"
    and "speed_setting info speed = (label, v)"
  shows "fand_set_fanspeed E a s = Inr (s\<lparr>
      subsystem_heap := (subsystem_heap s)(a \<mapsto> sub\<lparr>sub_speed := speed\<rparr>),
      bus := fold (reg_write E (yaml_handle s) (sub_name sub) v) (speed_controls info frus) (bus s),
      events := events s @ [FAN_SPEED (sub_name sub) label v]\<rparr>)"
  using assms by (intro fand_set_fanspeed_eq) (simp_all add: effective_speed_eq)

text \<open>An overheating subsystem with a user override of \<open>SLOW\<close>: the fans run at \<open>MAX\<close>.\<close>

theorem fand_set_fanspeed_refines_witness:
  "\<exists>t. fand_set_fanspeed bench 1 (bench_fand (bench_sub FAND_SPEED_SLOW FAND_SPEED_MAX)) = Inr t \<and>
     dev_writes (bus t) = [(11, 0x17), (12, 0x17)] \<and>
     map_option sub_speed (subsystem_heap t 1) = Some FAND_SPEED_MAX \<and>
     events t = [FAN_SPEED ''base'' ''MAX'' 0x17]"
proof -
  let ?sub = "bench_sub FAND_SPEED_SLOW FAND_SPEED_MAX"
  have "fand_set_fanspeed bench 1 (bench_fand ?sub) = Inr ((bench_fand ?sub)\<lparr>
      subsystem_heap := (subsystem_heap (bench_fand ?sub))(1 \<mapsto> ?sub\<lparr>sub_speed := FAND_SPEED_MAX\<rparr>),
      bus := fold (reg_write bench (yaml_handle (bench_fand ?sub)) (sub_name ?sub) 0x17)
        (speed_controls bench_info bench_frus) (bus (bench_fand ?sub)),
      events := events (bench_fand ?sub) @ [FAN_SPEED (sub_name ?sub) ''MAX'' 0x17]\<rparr>)"
    by (rule fand_set_fanspeed_refines)
      (simp_all add: bench_fand_def bench_sub_def, simp add: bench_info_def speed_setting_def)
  then show ?thesis
    by (simp add: bench_process bench_description bench_write_def reg_write_def speed_controls_def)
qed

end
