(* ===== verification/Physfan_Leds.thy ===== *)
theory Physfan_Leds
  imports Physfan_Speed
begin

text \<open>
  The status LEDs of a subsystem: \<open>get_local_fan\<close>, \<open>fand_set_led\<close> and
  \<open>fand_set_fanleds\<close> of \<open>src/physfan.c\<close>. Each FRU with an LED shows the worst status of
  its fans, the subsystem's LED the worst status of all of them.
\<close>

section \<open>The code\<close>

text \<open>The name of a fan in the daemon and the database: \<open>"%s-%s"\<close>.\<close>

definition full_fan_name :: "string \<Rightarrow> string \<Rightarrow> string" where
  "full_fan_name subsys fan = subsys @ ''-'' @ fan"

text \<open>Lines 46 to 50: the loop keeps the fan it looked at last, and stops at a match.\<close>

fun scan_fans ::
  "(addr \<rightharpoonup> locl_fan) \<Rightarrow> string \<Rightarrow> shash_node list \<Rightarrow> addr option \<Rightarrow> addr option res"
where
  "scan_fans heap fullname [] fan = Inr fan"
| "scan_fans heap fullname (node # nodes) fan =
     res_bind (load heap (snd node)) (\<lambda>f.
       if fan_name f = fullname then Inr (Some (snd node))
       else scan_fans heap fullname nodes (Some (snd node)))"

text \<open>
  \<open>fullname\<close> is a buffer of 128 bytes, so \<open>snprintf\<close> keeps at most 127 characters.
\<close>

definition get_local_fan ::
  "bucket_fun \<Rightarrow> (addr \<rightharpoonup> locl_fan) \<Rightarrow> locl_subsystem \<Rightarrow> string \<Rightarrow> addr option res" where
  "get_local_fan bucket heap sub name =
     (let fullname = take 127 (full_fan_name (sub_name sub) name)
      in scan_fans heap fullname (shash_nodes bucket (subsystem_fans sub)) None)"

definition led_value :: "yaml_fan_info \<Rightarrow> fanstatus \<Rightarrow> u8" where
  "led_value info status =
     (case status of
        FAND_STATUS_UNINITIALIZED \<Rightarrow> ucast (led_off (fan_led_values info))
      | FAND_STATUS_OK \<Rightarrow> ucast (led_good (fan_led_values info))
      | _ \<Rightarrow> ucast (led_fault (fan_led_values info)))"

definition fand_set_led ::
  "('y, 'w) services \<Rightarrow> 'y \<Rightarrow> string \<Rightarrow> yaml_fan_info \<Rightarrow> i2c_bit_op \<Rightarrow> fanstatus \<Rightarrow> 'w \<Rightarrow> int \<times> 'w"
where
  "fand_set_led E y name info led status w = i2c_reg_write E y w name led (led_value info status)"

text \<open>Lines 92 to 98: the worst status of the fans of one FRU.\<close>

fun fru_status ::
  "bucket_fun \<Rightarrow> (addr \<rightharpoonup> locl_fan) \<Rightarrow> locl_subsystem \<Rightarrow> yaml_fan list \<Rightarrow> fanstatus \<Rightarrow> fanstatus res"
where
  "fru_status bucket heap sub [] status = Inr status"
| "fru_status bucket heap sub (fan # fans) status =
     res_bind (get_local_fan bucket heap sub (yf_name fan)) (\<lambda>p.
       case p of
         None \<Rightarrow> fru_status bucket heap sub fans status
       | Some fa \<Rightarrow>
           res_bind (load heap fa) (\<lambda>lfan.
             fru_status bucket heap sub fans
               (if status < fan_status lfan then fan_status lfan else status)))"

text \<open>Lines 90 to 109: one FRU; the loop state is the bus and \<open>aggr_status\<close>.\<close>

definition set_fru_led ::
  "('y, 'w) services \<Rightarrow> 'y \<Rightarrow> (addr \<rightharpoonup> locl_fan) \<Rightarrow> locl_subsystem \<Rightarrow> yaml_fan_info
     \<Rightarrow> yaml_fan_fru option \<Rightarrow> 'w \<times> fanstatus \<Rightarrow> ('w \<times> fanstatus) res"
where
  "set_fru_led E y heap sub info p = (\<lambda>(w, aggr).
     res_bind (deref p) (\<lambda>fru.
     res_bind (fru_status (hash_bucket E) heap sub (fru_fans fru) FAND_STATUS_UNINITIALIZED) (\<lambda>status.
       let aggr = (if aggr < status then status else aggr) in
       case fru_fan_leds fru of
         None \<Rightarrow> Inr (w, aggr)
       | Some led \<Rightarrow> Inr (snd (fand_set_led E y (sub_name sub) info led status w), aggr))))"

definition fand_set_fanleds ::
  "('y, 'w) services \<Rightarrow> addr \<Rightarrow> ('y, 'w) fand \<Rightarrow> ('y, 'w) fand res" where
  "fand_set_fanleds E a s =
     res_bind (load (subsystem_heap s) a) (\<lambda>sub.
       let y = yaml_handle s; name = sub_name sub in
       case yaml_get_fan_info E y name of
         None \<Rightarrow> Inr s
       | Some info \<Rightarrow>
           res_bind (for_each
               (\<lambda>idx. set_fru_led E y (fan_heap s) sub info (yaml_get_fan_fru E y name idx))
               [0..<number_fan_frus info] (bus s, FAND_STATUS_UNINITIALIZED)) (\<lambda>(w, aggr).
             case fan_led info of
               None \<Rightarrow> Inr (s\<lparr>bus := w\<rparr>)
             | Some led \<Rightarrow> Inr (s\<lparr>bus := snd (fand_set_led E y name info led aggr w)\<rparr>)))"

section \<open>The specification\<close>

text \<open>The worst of a list of statuses; no fan at all counts as uninitialised.\<close>

definition worst_status :: "fanstatus list \<Rightarrow> fanstatus" where
  "worst_status ss = fold max ss FAND_STATUS_UNINITIALIZED"

lemma fold_max_upper: "(x :: fanstatus) \<in> set xs \<Longrightarrow> x \<le> fold max xs a"
  and fold_max_start: "a \<le> fold max xs (a :: fanstatus)"
  and fold_max_in: "fold max xs (a :: fanstatus) \<in> insert a (set xs)"
proof -
  have eq: "fold max xs a = Max (insert a (set xs))" for xs and a :: fanstatus
    by (simp add: Max.set_eq_fold [of a xs, symmetric, simplified])
  show "x \<in> set xs \<Longrightarrow> x \<le> fold max xs a" "a \<le> fold max xs a"
    unfolding eq by simp_all
  show "fold max xs a \<in> insert a (set xs)"
    unfolding eq by (rule Max_in) simp_all
qed

lemma worst_status_upper: "x \<in> set ss \<Longrightarrow> x \<le> worst_status ss"
  by (simp add: worst_status_def fold_max_upper)

lemma worst_status_in: "ss \<noteq> [] \<Longrightarrow> worst_status ss \<in> set ss"
proof -
  assume "ss \<noteq> []"
  then obtain x where x: "x \<in> set ss" by (cases ss) auto
  show ?thesis
  proof (cases "worst_status ss = FAND_STATUS_UNINITIALIZED")
    case True
    with worst_status_upper [OF x] have "x = worst_status ss"
      by (simp add: antisym)
    with x show ?thesis by simp
  next
    case False
    then show ?thesis
      using fold_max_in [of ss FAND_STATUS_UNINITIALIZED] by (auto simp: worst_status_def)
  qed
qed

lemma worst_status_append: "worst_status (xs @ ys) = fold max ys (worst_status xs)"
  by (simp add: worst_status_def)

lemma fold_max_worst: "fold max ys (a :: fanstatus) = max a (worst_status ys)"
proof (rule antisym)
  show "fold max ys a \<le> max a (worst_status ys)"
    using fold_max_in [of ys a] worst_status_upper [of _ ys] by (auto simp: le_max_iff_disj)
  show "max a (worst_status ys) \<le> fold max ys a"
    using fold_max_start [of a ys] fold_max_upper [of _ ys a]
      fold_max_in [of ys FAND_STATUS_UNINITIALIZED]
    by (auto simp: worst_status_def)
qed

text \<open>The status a subsystem's fan is known to have, found by its full name.\<close>

definition known_status :: "(addr \<rightharpoonup> locl_fan) \<Rightarrow> locl_subsystem \<Rightarrow> yaml_fan \<Rightarrow> fanstatus" where
  "known_status heap sub fan =
     (case map_of (subsystem_fans sub) (full_fan_name (sub_name sub) (yf_name fan)) of
        None \<Rightarrow> FAND_STATUS_UNINITIALIZED
      | Some fa \<Rightarrow> (case heap fa of None \<Rightarrow> FAND_STATUS_UNINITIALIZED | Some f \<Rightarrow> fan_status f))"

text \<open>The LED writes of a subsystem: LED and status shown, in order.\<close>

definition led_plan ::
  "(yaml_fan \<Rightarrow> fanstatus) \<Rightarrow> yaml_fan_info \<Rightarrow> yaml_fan_fru list \<Rightarrow> (i2c_bit_op \<times> fanstatus) list"
where
  "led_plan st info frus =
     concat (map (\<lambda>fru. map (\<lambda>led. (led, worst_status (map st (fru_fans fru))))
                          (the_list (fru_fan_leds fru))) frus)
     @ map (\<lambda>led. (led, worst_status (map st (concat (map fru_fans frus)))))
         (the_list (fan_led info))"

definition show_led ::
  "('y, 'w) services \<Rightarrow> 'y \<Rightarrow> string \<Rightarrow> yaml_fan_info \<Rightarrow> i2c_bit_op \<times> fanstatus \<Rightarrow> 'w \<Rightarrow> 'w" where
  "show_led E y name info = (\<lambda>(led, status). reg_write E y name (led_value info status) led)"

text \<open>
  What the lookup relies on: the fan table's nodes lead to fans of that name, names are
  unique, and the fans of the description are in the table under a name that fits the
  buffer.
\<close>

definition fan_table_ok :: "(addr \<rightharpoonup> locl_fan) \<Rightarrow> locl_subsystem \<Rightarrow> bool" where
  "fan_table_ok heap sub \<longleftrightarrow>
     distinct (map fst (subsystem_fans sub)) \<and>
     (\<forall>(n, fa) \<in> set (subsystem_fans sub). \<exists>f. heap fa = Some f \<and> fan_name f = n)"

definition fan_listed :: "locl_subsystem \<Rightarrow> yaml_fan \<Rightarrow> bool" where
  "fan_listed sub fan \<longleftrightarrow>
     full_fan_name (sub_name sub) (yf_name fan) \<in> fst ` set (subsystem_fans sub) \<and>
     length (full_fan_name (sub_name sub) (yf_name fan)) \<le> 127"

section \<open>Lemmas\<close>

lemma fand_set_led_show:
  "snd (fand_set_led E y name info led status w) = show_led E y name info (led, status) w"
  by (simp add: show_led_def fand_set_led_def reg_write_def)

lemma scan_fans_found:
  assumes "\<forall>(n, fa) \<in> set nodes. \<exists>f. heap fa = Some f \<and> fan_name f = n"
    and "distinct (map fst nodes)" and "(name, fa) \<in> set nodes"
  shows "scan_fans heap name nodes start = Inr (Some fa)"
  using assms
proof (induction nodes arbitrary: start)
  case (Cons node nodes)
  obtain n na where node: "node = (n, na)" by (cases node)
  from Cons.prems(1) obtain f where "heap na = Some f" and "fan_name f = n"
    by (auto simp: node)
  with Cons show ?case by (force simp: node)
qed simp

text \<open>A name that no fan has: the answer is the fan visited last, if there is any.\<close>

lemma scan_fans_not_found:
  assumes "\<forall>(n, fa) \<in> set nodes. \<exists>f. heap fa = Some f \<and> fan_name f = n"
    and "name \<notin> fst ` set nodes"
  shows "scan_fans heap name nodes start =
    Inr (if nodes = [] then start else Some (snd (last nodes)))"
  using assms
proof (induction nodes arbitrary: start)
  case (Cons node nodes)
  then show ?case by (auto simp: split_beta)
qed simp

lemma get_local_fan_found:
  assumes "fan_table_ok heap sub"
    and "(full_fan_name (sub_name sub) name, fa) \<in> set (subsystem_fans sub)"
    and "length (full_fan_name (sub_name sub) name) \<le> 127"
  shows "get_local_fan bucket heap sub name = Inr (Some fa)"
  using assms
  by (auto simp: get_local_fan_def fan_table_ok_def Let_def intro!: scan_fans_found)

lemma get_local_fan_other:
  assumes "fan_table_ok heap sub"
    and "take 127 (full_fan_name (sub_name sub) name) \<notin> fst ` set (subsystem_fans sub)"
  shows "get_local_fan bucket heap sub name =
    Inr (if subsystem_fans sub = [] then None
         else Some (snd (last (shash_nodes bucket (subsystem_fans sub)))))"
proof -
  let ?ns = "shash_nodes bucket (subsystem_fans sub)"
  have "\<forall>(n, fa) \<in> set ?ns. \<exists>f. heap fa = Some f \<and> fan_name f = n"
    using assms(1) by (simp add: fan_table_ok_def)
  moreover have "take 127 (full_fan_name (sub_name sub) name) \<notin> fst ` set ?ns"
    using assms(2) by simp
  ultimately show ?thesis
    by (simp add: get_local_fan_def Let_def scan_fans_not_found)
qed

lemma fru_status_eq:
  assumes "fan_table_ok heap sub" and "\<forall>fan \<in> set fans. fan_listed sub fan"
  shows "fru_status bucket heap sub fans status =
    Inr (fold max (map (known_status heap sub) fans) status)"
  using assms(2)
proof (induction fans arbitrary: status)
  case (Cons fan fans)
  let ?n = "full_fan_name (sub_name sub) (yf_name fan)"
  from Cons.prems obtain fa where fa: "(?n, fa) \<in> set (subsystem_fans sub)"
    and len: "length ?n \<le> 127"
    by (auto simp: fan_listed_def)
  from fa assms(1) obtain f where f: "heap fa = Some f" by (auto simp: fan_table_ok_def)
  have "map_of (subsystem_fans sub) ?n = Some fa"
    using fa assms(1) by (simp add: fan_table_ok_def)
  then have "known_status heap sub fan = fan_status f" by (simp add: known_status_def f)
  with Cons f get_local_fan_found [OF assms(1) fa len] show ?case
    by (simp add: max_def not_less) (auto dest: antisym)
qed simp

lemma set_fru_led_eq:
  assumes "fan_table_ok (fan_heap s) sub" and "\<forall>fan \<in> set (fru_fans fru). fan_listed sub fan"
    and "st = known_status (fan_heap s) sub"
  shows "set_fru_led E y (fan_heap s) sub info (Some fru) (w, aggr) =
    Inr (fold (show_led E y (sub_name sub) info)
           (map (\<lambda>led. (led, worst_status (map st (fru_fans fru)))) (the_list (fru_fan_leds fru))) w,
         max aggr (worst_status (map st (fru_fans fru))))"
  using assms
  by (auto simp: set_fru_led_def fru_status_eq Let_def fand_set_led_show
      worst_status_def max_def not_less split: option.splits dest: antisym)

text \<open>The loop over the FRUs, and the whole function.\<close>

lemma set_fru_leds_eq:
  assumes "fan_table_ok heap sub" and "heap = fan_heap s" and "st = known_status heap sub"
    and "\<forall>fru \<in> set frus. \<forall>fan \<in> set (fru_fans fru). fan_listed sub fan"
  shows "for_each (\<lambda>fru. set_fru_led E y heap sub info (Some fru)) frus (w, aggr) =
    Inr (fold (show_led E y (sub_name sub) info)
           (concat (map (\<lambda>fru. map (\<lambda>led. (led, worst_status (map st (fru_fans fru))))
                                (the_list (fru_fan_leds fru))) frus)) w,
         max aggr (worst_status (map st (concat (map fru_fans frus)))))"
  using assms(4)
proof (induction frus arbitrary: w aggr)
  case Nil
  then show ?case by (simp add: worst_status_def max_absorb1)
next
  case (Cons fru frus)
  then show ?case
    using assms(1-3)
    by (simp add: set_fru_led_eq worst_status_append fold_max_worst max.assoc)
qed

lemma fand_set_fanleds_eq:
  assumes "subsystem_heap s a = Some sub"
    and "yaml_get_fan_info E (yaml_handle s) (sub_name sub) = Some info"
    and "described_frus E (yaml_handle s) (sub_name sub) (number_fan_frus info) = Some frus"
    and "fan_table_ok (fan_heap s) sub"
    and "\<forall>fru \<in> set frus. \<forall>fan \<in> set (fru_fans fru). fan_listed sub fan"
  shows "fand_set_fanleds E a s = Inr (s\<lparr>bus :=
    fold (show_led E (yaml_handle s) (sub_name sub) info)
      (led_plan (known_status (fan_heap s) sub) info frus) (bus s)\<rparr>)"
proof -
  let ?frus = "\<lambda>fru. set_fru_led E (yaml_handle s) (fan_heap s) sub info (Some fru)"
  let ?loop = "for_each (\<lambda>idx. set_fru_led E (yaml_handle s) (fan_heap s) sub info
      (yaml_get_fan_fru E (yaml_handle s) (sub_name sub) idx)) [0..<number_fan_frus info]"
  have "?loop z = for_each ?frus frus z" for z
    using assms(3) by (intro for_each_upt) (auto simp: described_frus_def)
  note loop = this [of "(bus s, FAND_STATUS_UNINITIALIZED)",
      unfolded set_fru_leds_eq [OF assms(4) refl refl assms(5)]]
  show ?thesis
    using assms(1,2)
    by (simp add: fand_set_fanleds_def Let_def loop led_plan_def fand_set_led_show
        max_absorb2 split: option.splits)
qed

text \<open>Whatever the library answers, the LEDs change nothing but the bus.\<close>

lemma fand_set_fanleds_frame:
  assumes "fand_set_fanleds E a s = Inr t"
  obtains w where "t = s\<lparr>bus := w\<rparr>"
proof (cases "t = s")
  case True
  with that [of "bus s"] show thesis by simp
next
  case False
  with assms that show thesis
    by (auto simp: fand_set_fanleds_def res_bind_eq_Inr Let_def split: option.splits)
qed

text \<open>
  No fault, whatever the names: the lookup answers a fan of the table or NULL.
\<close>

lemma scan_fans_total:
  assumes "\<forall>node \<in> set nodes. heap (snd node) \<noteq> None" and "\<forall>fa. start = Some fa \<longrightarrow> heap fa \<noteq> None"
  obtains p where "scan_fans heap name nodes start = Inr p" and "\<forall>fa. p = Some fa \<longrightarrow> heap fa \<noteq> None"
proof -
  have "\<exists>p. scan_fans heap name nodes start = Inr p \<and> (\<forall>fa. p = Some fa \<longrightarrow> heap fa \<noteq> None)"
    using assms
  proof (induction nodes arbitrary: start)
    case (Cons node nodes)
    then obtain f where "heap (snd node) = Some f" by auto
    with Cons show ?case by simp
  qed simp
  with that show thesis by blast
qed

lemma fru_status_total:
  assumes "\<forall>node \<in> set (subsystem_fans sub). heap (snd node) \<noteq> None"
  shows "\<exists>st. fru_status bucket heap sub fans status = Inr st"
proof (induction fans arbitrary: status)
  case (Cons fan fans)
  obtain p where "get_local_fan bucket heap sub (yf_name fan) = Inr p"
    "\<forall>fa. p = Some fa \<longrightarrow> heap fa \<noteq> None"
    using scan_fans_total [of "shash_nodes bucket (subsystem_fans sub)" heap None] assms
    by (auto simp: get_local_fan_def Let_def)
  with Cons show ?case by (cases p) auto
qed simp

lemma fand_set_fanleds_total:
  assumes "subsystem_heap s a = Some sub"
    and "\<forall>node \<in> set (subsystem_fans sub). fan_heap s (snd node) \<noteq> None"
    and "yaml_get_fan_info E (yaml_handle s) (sub_name sub) = Some info"
    and "described_frus E (yaml_handle s) (sub_name sub) (number_fan_frus info) = Some frus"
  obtains w where "fand_set_fanleds E a s = Inr (s\<lparr>bus := w\<rparr>)"
proof -
  let ?y = "yaml_handle s"
  let ?led = "\<lambda>p. set_fru_led E ?y (fan_heap s) sub info p"
  have step: "\<exists>z'. ?led (Some fru) z = Inr z'" for fru z
    using fru_status_total [OF assms(2), of "hash_bucket E" "fru_fans fru" FAND_STATUS_UNINITIALIZED]
    by (cases z) (auto simp: set_fru_led_def Let_def split: option.splits)
  have "for_each (\<lambda>idx. ?led (yaml_get_fan_fru E ?y (sub_name sub) idx)) [0..<number_fan_frus info] z =
      for_each (\<lambda>fru. ?led (Some fru)) frus z" for z
    using assms(4) by (intro for_each_upt) (auto simp: described_frus_def)
  moreover have "\<exists>z'. for_each (\<lambda>fru. ?led (Some fru)) frus z = Inr z'" for z
    using for_each_safe [of "\<lambda>_ _. True" frus z "\<lambda>fru. ?led (Some fru)"] step by blast
  ultimately obtain w aggr where
    loop: "for_each (\<lambda>idx. ?led (yaml_get_fan_fru E ?y (sub_name sub) idx)) [0..<number_fan_frus info]
      (bus s, FAND_STATUS_UNINITIALIZED) = Inr (w, aggr)" by fastforce
  then have "\<exists>t. fand_set_fanleds E a s = Inr t"
    using assms(1,3) by (auto simp: fand_set_fanleds_def Let_def split: option.splits)
  then obtain t where t: "fand_set_fanleds E a s = Inr t" ..
  then obtain w' where "t = s\<lparr>bus := w'\<rparr>" by (rule fand_set_fanleds_frame)
  with t that show thesis by blast
qed

section \<open>Properties\<close>

text \<open>C13: The status LEDs. When every fan of the description is registered under a name that
  fits the lookup's buffer, \<open>fand_set_fanleds\<close> shows on the LED of each FRU the worst status
  among that FRU's fans and then, on the subsystem's LED, the worst status of all its fans;
  FRUs without an LED are counted but not shown, and nothing but the bus changes.\<close>

theorem fand_set_fanleds_refines:
  assumes "subsystem_heap s a = Some sub"
    and "yaml_get_fan_info E (yaml_handle s) (sub_name sub) = Some info"
    and "described_frus E (yaml_handle s) (sub_name sub) (number_fan_frus info) = Some frus"
    and "fan_table_ok (fan_heap s) sub"
    and "\<forall>fru \<in> set frus. \<forall>fan \<in> set (fru_fans fru). fan_listed sub fan"
  shows "fand_set_fanleds E a s = Inr (s\<lparr>bus :=
    fold (\<lambda>(led, status). reg_write E (yaml_handle s) (sub_name sub) (led_value info status) led)
      (led_plan (known_status (fan_heap s) sub) info frus) (bus s)\<rparr>)"
  using fand_set_fanleds_eq [OF assms] by (simp add: show_led_def)

text \<open>
  On the bench, with the first fan at fault, the second fine and the third uninitialised:
  the first FRU's LED and the subsystem's show the fault.
\<close>

definition bench_led_state :: "(string list, bench_dev) fand" where
  "bench_led_state =
     (bench_fand ((bench_sub FAND_SPEED_NONE FAND_SPEED_SLOW)\<lparr>subsystem_fans :=
        [(''base-1L'', 11), (''base-1R'', 12), (''base-2L'', 13)]\<rparr>))
     \<lparr>fan_heap := [11 \<mapsto> bench_junk_fan\<lparr>fan_name := ''base-1L'', fan_status := FAND_STATUS_FAULT\<rparr>,
                   12 \<mapsto> bench_junk_fan\<lparr>fan_name := ''base-1R'', fan_status := FAND_STATUS_OK\<rparr>,
                   13 \<mapsto> bench_junk_fan\<lparr>fan_name := ''base-2L''\<rparr>]\<rparr>"

theorem fand_set_fanleds_refines_witness:
  "\<exists>t. fand_set_fanleds bench 1 bench_led_state = Inr t \<and> dev_writes (bus t) = [(41, 2), (40, 2)]"
proof -
  let ?s = bench_led_state
  let ?sub = "(bench_sub FAND_SPEED_NONE FAND_SPEED_SLOW)\<lparr>subsystem_fans :=
        [(''base-1L'', 11), (''base-1R'', 12), (''base-2L'', 13)]\<rparr>"
  have "fand_set_fanleds bench 1 ?s = Inr (?s\<lparr>bus :=
      fold (\<lambda>(led, status). reg_write bench (yaml_handle ?s) (sub_name ?sub) (led_value bench_info status) led)
        (led_plan (known_status (fan_heap ?s) ?sub) bench_info bench_frus) (bus ?s)\<rparr>)"
    by (rule fand_set_fanleds_refines)
      (simp_all add: bench_led_state_def bench_fand_def bench_sub_def fan_table_ok_def
        fan_listed_def full_fan_name_def bench_frus_all bench_junk_fan_def)
  then show ?thesis
    by (simp add: bench_led_state_def bench_process bench_description bench_write_def reg_write_def
        led_plan_def known_status_def full_fan_name_def bench_junk_fan_def worst_status_def
        led_value_def max_def less_eq_fanstatus_def)
qed

text \<open>C25: What an LED shows. The status computed for an FRU is at least as bad as every
  fan's, and it is some fan's own status, or uninitialized when the FRU has no fan.\<close>

theorem fru_status_is_worst:
  assumes "fan_table_ok heap sub" and "\<forall>fan \<in> set fans. fan_listed sub fan"
  shows "\<exists>status. fru_status bucket heap sub fans FAND_STATUS_UNINITIALIZED = Inr status \<and>
    (\<forall>fan \<in> set fans. known_status heap sub fan \<le> status) \<and>
    status \<in> insert FAND_STATUS_UNINITIALIZED (known_status heap sub ` set fans) \<and>
    (fans \<noteq> [] \<longrightarrow> status \<in> known_status heap sub ` set fans)"
  using fru_status_eq [OF assms, of bucket FAND_STATUS_UNINITIALIZED]
    worst_status_upper [of _ "map (known_status heap sub) fans"]
    worst_status_in [of "map (known_status heap sub) fans"]
  by (cases "fans = []") (auto simp: worst_status_def)

theorem fru_status_is_worst_witness:
  "\<exists>status. fru_status (\<lambda>_ _. 0) [11 \<mapsto> bench_junk_fan\<lparr>fan_name := ''base-1L'', fan_status := FAND_STATUS_OK\<rparr>]
      ((bench_sub FAND_SPEED_NONE FAND_SPEED_SLOW)\<lparr>subsystem_fans := [(''base-1L'', 11)]\<rparr>)
      [bench_fan 101 ''1L'' 21 None 31] FAND_STATUS_UNINITIALIZED = Inr status \<and>
    status = FAND_STATUS_OK"
  using fru_status_is_worst [of "[11 \<mapsto> bench_junk_fan\<lparr>fan_name := ''base-1L'', fan_status := FAND_STATUS_OK\<rparr>]"
      "(bench_sub FAND_SPEED_NONE FAND_SPEED_SLOW)\<lparr>subsystem_fans := [(''base-1L'', 11)]\<rparr>"
      "[bench_fan 101 ''1L'' 21 None 31]" "\<lambda>_ _. 0"]
  by (auto simp: fan_table_ok_def fan_listed_def bench_sub_def bench_fan_def full_fan_name_def
      known_status_def)

text \<open>C26: The lookup of a fan. A fan whose full name fits the buffer is found, whatever the
  order of the table. A name that no registered fan has is answered with the fan the loop
  looked at last, not with NULL, unless the table is empty.\<close>

theorem get_local_fan_result:
  assumes "fan_table_ok heap sub" and "length (full_fan_name (sub_name sub) name) \<le> 127"
  shows "get_local_fan bucket heap sub name = Inr
    (case map_of (subsystem_fans sub) (full_fan_name (sub_name sub) name) of
       Some fa \<Rightarrow> Some fa
     | None \<Rightarrow> if subsystem_fans sub = [] then None
               else Some (snd (last (shash_nodes bucket (subsystem_fans sub)))))"
proof (cases "map_of (subsystem_fans sub) (full_fan_name (sub_name sub) name)")
  case None
  then have "full_fan_name (sub_name sub) name \<notin> fst ` set (subsystem_fans sub)"
    by (simp add: map_of_eq_None_iff)
  with assms None show ?thesis by (simp add: get_local_fan_other)
next
  case (Some fa)
  then have "(full_fan_name (sub_name sub) name, fa) \<in> set (subsystem_fans sub)"
    by (rule map_of_SomeD)
  with assms Some show ?thesis by (simp add: get_local_fan_found)
qed

theorem get_local_fan_result_witness:
  "get_local_fan (\<lambda>_ _. 0) [11 \<mapsto> bench_junk_fan\<lparr>fan_name := ''base-1L''\<rparr>]
     ((bench_sub FAND_SPEED_NONE FAND_SPEED_SLOW)\<lparr>subsystem_fans := [(''base-1L'', 11)]\<rparr>)
     ''9X'' = Inr (Some 11)"
  by (subst get_local_fan_result)
    (simp_all add: fan_table_ok_def bench_sub_def full_fan_name_def)

end
