(* ===== verification/Physfan_Status.thy ===== *)
theory Physfan_Status
  imports Physfan_Leds
begin

text \<open>
  Reading a fan: \<open>fand_read_rpm\<close>, \<open>fand_read_status\<close>, \<open>fand_read_fan_fru_direction\<close>,
  \<open>fan_fru_get\<close>, \<open>fand_read_direction\<close>, \<open>fand_read_present\<close> and
  \<open>fand_read_fan_status\<close> of \<open>src/physfan.c\<close>.

  The readers thread the bus: a register access answers a return code, the content of the
  result cell and the bus after the access.
\<close>

section \<open>The code\<close>

definition fand_read_rpm ::
  "('y, 'w) services \<Rightarrow> 'y \<Rightarrow> string \<Rightarrow> yaml_fan \<Rightarrow> 'w \<Rightarrow> c_int \<times> 'w" where
  "fand_read_rpm E y name fan w =
     (let (rc, dword, w) = i2c_reg_read E y w name (yf_fan_speed fan) 0 in
      if rc \<noteq> 0 then (0, w)
      else
        let rpm = dword in
        case yf_fan_speed_msb fan of
          None \<Rightarrow> (rpm, w)
        | Some msb \<Rightarrow>
            let (rc, dword, w) = i2c_reg_read E y w name (Some msb) dword in
            if rc \<noteq> 0 then (0, w) else (rpm + push_bit 8 dword, w))"

text \<open>\<open>fand_read_status\<close> of \<open>physfan.c\<close>; \<open>fand.c\<close> has a function of the same name.\<close>

definition fand_read_status_reg ::
  "('y, 'w) services \<Rightarrow> 'y \<Rightarrow> string \<Rightarrow> yaml_fan \<Rightarrow> 'w \<Rightarrow> fanstatus \<times> 'w" where
  "fand_read_status_reg E y name fan w =
     (let (rc, value, w) = i2c_reg_read E y w name (yf_fan_fault fan) 0 in
      if rc \<noteq> 0 then (FAND_STATUS_UNINITIALIZED, w)
      else if value \<noteq> 0 then (FAND_STATUS_FAULT, w)
      else (FAND_STATUS_OK, w))"

definition fand_read_fan_fru_direction ::
  "('y, 'w) services \<Rightarrow> 'y \<Rightarrow> string \<Rightarrow> yaml_fan_fru \<Rightarrow> yaml_fan_info option \<Rightarrow> 'w
     \<Rightarrow> (fandirection \<times> 'w) res" where
  "fand_read_fan_fru_direction E y name fru info w =
     (let (rc, value, w) =
            i2c_reg_read E y w name (fru_fan_direction_detect fru) (junk_u32 E w) in
      if rc \<noteq> 0 then Inr (FAND_DIRECTION_F2B, w)
      else res_bind (deref info) (\<lambda>info.
        Inr (if value \<noteq> 0
             then (if direction_f2b info \<noteq> 0 then FAND_DIRECTION_F2B else FAND_DIRECTION_B2F)
             else (if direction_f2b info \<noteq> 0 then FAND_DIRECTION_B2F else FAND_DIRECTION_F2B),
             w)))"

text \<open>Lines 357 to 368: fans are compared by address.\<close>

fun fan_fru_scan ::
  "('y, 'w) services \<Rightarrow> 'y \<Rightarrow> string \<Rightarrow> yaml_fan \<Rightarrow> nat list \<Rightarrow> yaml_fan_fru option res" where
  "fan_fru_scan E y name fan [] = Inr None"
| "fan_fru_scan E y name fan (idx # rest) =
     res_bind (deref (yaml_get_fan_fru E y name idx)) (\<lambda>fru.
       if \<exists>g \<in> set (fru_fans fru). yf_addr fan = yf_addr g then Inr (Some fru)
       else fan_fru_scan E y name fan rest)"

definition fan_fru_get ::
  "('y, 'w) services \<Rightarrow> 'y \<Rightarrow> string \<Rightarrow> yaml_fan \<Rightarrow> yaml_fan_fru option res" where
  "fan_fru_get E y name fan =
     fan_fru_scan E y name fan [0..<nat (yaml_get_fan_fru_count E y name)]"

definition fand_read_direction ::
  "('y, 'w) services \<Rightarrow> 'y \<Rightarrow> string \<Rightarrow> yaml_fan \<Rightarrow> 'w \<Rightarrow> (string \<times> 'w) res" where
  "fand_read_direction E y name fan w =
     res_bind (fan_fru_get E y name fan) (\<lambda>p.
       case p of
         None \<Rightarrow> Inr (fan_direction_enum_to_string FAND_DIRECTION_F2B, w)
       | Some fru \<Rightarrow>
           let info = yaml_get_fan_info E y name in
           case fru_fan_direction_detect fru of
             None \<Rightarrow> Inr (fan_direction_enum_to_string FAND_DIRECTION_F2B, w)
           | Some _ \<Rightarrow>
               res_bind (fand_read_fan_fru_direction E y name fru info w) (\<lambda>(d, w).
                 Inr (fan_direction_enum_to_string d, w)))"

text \<open>The test here is \<open>rc < 0\<close>; \<open>present\<close> is not initialised before the read.\<close>

definition fand_read_present ::
  "('y, 'w) services \<Rightarrow> 'y \<Rightarrow> string \<Rightarrow> yaml_fan_fru option \<Rightarrow> 'w \<Rightarrow> (bool \<times> 'w) res" where
  "fand_read_present E y name p w =
     res_bind (deref p) (\<lambda>fru.
       case fru_fan_present fru of
         None \<Rightarrow> Inr (True, w)
       | Some oper \<Rightarrow>
           let (rc, present, w) = i2c_reg_read E y w name (Some oper) (junk_u32 E w);
               present = (if rc < 0 then 0 else present)
           in Inr (present \<noteq> 0, w))"

text \<open>Lines 434 to 445.\<close>

definition scale_rpm :: "c_int \<Rightarrow> c_int \<Rightarrow> c_int \<Rightarrow> c_int res" where
  "scale_rpm multiplier numerator rpm =
     (if multiplier \<noteq> 0 then int_mul rpm multiplier
      else if numerator \<noteq> 0 then
        (if rpm \<noteq> 0 then int_div numerator rpm else Inr 0)
      else Inr rpm)"

definition fand_read_fan_status ::
  "('y, 'w) services \<Rightarrow> addr \<Rightarrow> ('y, 'w) fand \<Rightarrow> ('y, 'w) fand res" where
  "fand_read_fan_status E fa s =
     res_bind (load (fan_heap s) fa) (\<lambda>f.
     res_bind (load (subsystem_heap s) (fan_subsystem f)) (\<lambda>sub.
       let y = yaml_handle s; name = sub_name sub; fan = fan_yaml f in
       res_bind (fand_read_direction E y name fan (bus s)) (\<lambda>(direction, w).
       let f = f\<lparr>fan_direction := direction\<rparr> in
       res_bind (fan_fru_get E y name fan) (\<lambda>p.
       res_bind (fand_read_present E y name p w) (\<lambda>(present, w).
         if \<not> present then
           Inr (store_fan fa (f\<lparr>fan_status := FAND_STATUS_FAULT, fan_rpm := 0\<rparr>) (s\<lparr>bus := w\<rparr>))
         else
           let (rpm, w) = fand_read_rpm E y name fan w in
           res_bind (scale_rpm (sub_multiplier sub) (sub_numerator sub) rpm) (\<lambda>rpm.
             let (status, w) = fand_read_status_reg E y name fan w in
             Inr (store_fan fa (f\<lparr>fan_rpm := rpm, fan_status := status\<rparr>) (s\<lparr>bus := w\<rparr>))))))))"

section \<open>The speed computation\<close>

text \<open>Two one-byte registers make a 16-bit reading; nothing wraps.\<close>

lemma rpm_of_bytes:
  assumes "uint lo < 256" and "uint hi < 256"
  shows "sint (lo + push_bit 8 hi :: c_int) = uint lo + 256 * uint hi"
proof -
  have sum: "uint lo + 256 * uint hi < 2 ^ 16" using assms by simp
  have "uint (push_bit 8 hi :: c_int) = 256 * uint hi"
    using assms(2) uint_ge_0 [of hi]
    by (simp add: push_bit_eq_mult uint_mult_lem mult.commute uint_word_ariths)
  then have "uint (lo + push_bit 8 hi :: c_int) = uint lo + 256 * uint hi"
    using sum uint_ge_0 [of lo] uint_ge_0 [of hi] by (simp add: uint_word_ariths)
  with sum show ?thesis by (simp add: sint_eq_uint_small)
qed

lemma int_mul_Inr:
  assumes "in_int_range (sint a * sint b)"
  obtains c where "int_mul a b = Inr c" and "sint c = sint a * sint b"
proof (rule that)
  show "int_mul a b = Inr (word_of_int (sint a * sint b))"
    using assms by (simp add: int_mul_def)
  show "sint (word_of_int (sint a * sint b) :: c_int) = sint a * sint b"
    using assms by (rule sint_word_of_int)
qed

lemma int_div_Inr:
  assumes "b \<noteq> 0" and "in_int_range (sint a sdiv sint b)"
  obtains c where "int_div a b = Inr c" and "sint c = sint a sdiv sint b"
  using assms that by (simp add: int_div_def sint_word_of_int)

text \<open>Truncating division leaves the range of \<open>int\<close> for one pair of operands only.\<close>

lemma sdiv_in_int_range:
  assumes "in_int_range a"
  shows "in_int_range (a sdiv b) \<longleftrightarrow> \<not> (a = - (2 ^ 31) \<and> b = - 1)"
proof (cases "a = - (2 ^ 31)")
  case False
  then have "\<bar>a\<bar> < 2 ^ 31" using assms by (auto simp: in_int_range_def)
  with False sdiv_int_range [of a b] show ?thesis by (auto simp: in_int_range_def)
next
  case True
  consider "b = - 1" | "b = 0" | "0 < b" | "b < - 1" by linarith
  then show ?thesis
  proof cases
    case 3
    then have "a sdiv b \<le> 0"
      using True by (simp add: signed_divide_int_def pos_imp_zdiv_nonneg_iff)
    with 3 True sdiv_int_range [of a b] show ?thesis by (auto simp: in_int_range_def)
  next
    case 4
    then have "(2 ^ 31 :: int) div (- b) \<le> 2 ^ 31 div 2" by (intro zdiv_mono2) auto
    moreover have "0 \<le> (2 ^ 31 :: int) div (- b)" using 4 by (simp add: pos_imp_zdiv_nonneg_iff)
    ultimately show ?thesis using 4 True by (simp add: in_int_range_def signed_divide_int_def)
  qed (use True in \<open>simp_all add: in_int_range_def signed_divide_int_def\<close>)
qed

lemma scale_rpm_eq_Inl:
  "scale_rpm m n rpm = Inl e \<longleftrightarrow> e = IntOverflow \<and>
     (m \<noteq> 0 \<and> \<not> in_int_range (sint rpm * sint m) \<or>
      m = 0 \<and> sint n = - (2 ^ 31) \<and> sint rpm = - 1)"
  using sdiv_in_int_range [of "sint n" "sint rpm"]
  by (auto simp: scale_rpm_def int_mul_def int_div_def Let_def)

lemma scale_rpm_Inr:
  assumes "scale_rpm m n rpm = Inr c"
  shows "sint c =
    (if m \<noteq> 0 then sint rpm * sint m
     else if n \<noteq> 0 then (if rpm \<noteq> 0 then sint n sdiv sint rpm else 0)
     else sint rpm)"
  using assms sint_word_of_int [of "sint rpm * sint m"] sint_word_of_int [of "sint n sdiv sint rpm"]
  by (auto simp: scale_rpm_def int_mul_def int_div_def Let_def split: if_splits)

lemma scale_rpm_total:
  assumes "0 \<le> sint rpm" and "sint rpm \<le> 65535" and "\<bar>sint m\<bar> \<le> 32768"
  obtains c where "scale_rpm m n rpm = Inr c"
proof (cases "scale_rpm m n rpm")
  case (Inl e)
  have "\<bar>sint rpm * sint m\<bar> \<le> 65535 * 32768"
    using assms unfolding abs_mult by (intro mult_mono) auto
  then have "in_int_range (sint rpm * sint m)"
    unfolding in_int_range_def abs_le_iff by simp
  with Inl assms(1) have False by (simp add: scale_rpm_eq_Inl)
  then show ?thesis ..
qed (use that in blast)

section \<open>Reading one fan\<close>

text \<open>
  A bus whose registers answer the same way every time: \<open>rd oper\<close> is the return code and
  the value of a register. A failing read leaves the result cell alone. The registers may
  fail, so the specification below covers the error branches as well.
\<close>

type_synonym registers = "i2c_bit_op option \<Rightarrow> int \<times> u32"

definition steady_bus ::
  "('y, 'w) services \<Rightarrow> 'y \<Rightarrow> string \<Rightarrow> registers \<Rightarrow> 'w \<Rightarrow> bool" where
  "steady_bus E y name rd w \<longleftrightarrow>
     (\<forall>oper c. i2c_reg_read E y w name oper c =
        (fst (rd oper), if fst (rd oper) = 0 then snd (rd oper) else c, w))"

definition seen_direction :: "registers \<Rightarrow> yaml_fan_info \<Rightarrow> yaml_fan_fru \<Rightarrow> fandirection" where
  "seen_direction rd info fru =
     (case fru_fan_direction_detect fru of
        None \<Rightarrow> FAND_DIRECTION_F2B
      | Some oper \<Rightarrow>
          (if fst (rd (Some oper)) \<noteq> 0 then FAND_DIRECTION_F2B
           else if (snd (rd (Some oper)) \<noteq> 0) = (direction_f2b info \<noteq> 0)
           then FAND_DIRECTION_F2B else FAND_DIRECTION_B2F))"

text \<open>
  A positive return code is no error to \<open>fand_read_present\<close>: the answer is then whatever
  the stack held.
\<close>

definition seen_present :: "u32 \<Rightarrow> registers \<Rightarrow> yaml_fan_fru \<Rightarrow> bool" where
  "seen_present junk rd fru =
     (case fru_fan_present fru of
        None \<Rightarrow> True
      | Some oper \<Rightarrow>
          (if fst (rd (Some oper)) < 0 then False
           else if fst (rd (Some oper)) = 0 then snd (rd (Some oper)) \<noteq> 0
           else junk \<noteq> 0))"

definition seen_rpm :: "registers \<Rightarrow> yaml_fan \<Rightarrow> c_int" where
  "seen_rpm rd fan =
     (if fst (rd (yf_fan_speed fan)) \<noteq> 0 then 0
      else case yf_fan_speed_msb fan of
        None \<Rightarrow> snd (rd (yf_fan_speed fan))
      | Some msb \<Rightarrow>
          (if fst (rd (Some msb)) \<noteq> 0 then 0
           else snd (rd (yf_fan_speed fan)) + push_bit 8 (snd (rd (Some msb)))))"

definition seen_status :: "registers \<Rightarrow> yaml_fan \<Rightarrow> fanstatus" where
  "seen_status rd fan =
     (if fst (rd (yf_fan_fault fan)) \<noteq> 0 then FAND_STATUS_UNINITIALIZED
      else if snd (rd (yf_fan_fault fan)) \<noteq> 0 then FAND_STATUS_FAULT
      else FAND_STATUS_OK)"

definition seen_fan ::
  "u32 \<Rightarrow> registers \<Rightarrow> yaml_fan_info \<Rightarrow> yaml_fan_fru \<Rightarrow> c_int \<Rightarrow> locl_fan \<Rightarrow> locl_fan" where
  "seen_fan junk rd info fru rpm f = f\<lparr>
     fan_direction := fan_direction_enum_to_string (seen_direction rd info fru),
     fan_rpm := (if seen_present junk rd fru then rpm else 0),
     fan_status := (if seen_present junk rd fru then seen_status rd (fan_yaml f)
                    else FAND_STATUS_FAULT)\<rparr>"

text \<open>The first FRU that holds a fan, by address.\<close>

definition fru_of_fan :: "yaml_fan_fru list \<Rightarrow> yaml_fan \<Rightarrow> yaml_fan_fru option" where
  "fru_of_fan frus fan =
     find (\<lambda>fru. yf_addr fan \<in> yf_addr ` set (fru_fans fru)) frus"

lemma fan_fru_scan_eq:
  assumes "map (yaml_get_fan_fru E y name) idxs = map Some frus"
  shows "fan_fru_scan E y name fan idxs = Inr (fru_of_fan frus fan)"
  using assms
proof (induction idxs arbitrary: frus)
  case Nil
  then show ?case by (simp add: fru_of_fan_def)
next
  case (Cons i idxs)
  then obtain fru rest where "frus = fru # rest" "yaml_get_fan_fru E y name i = Some fru"
    and "map (yaml_get_fan_fru E y name) idxs = map Some rest"
    by (auto simp: Cons_eq_map_conv)
  with Cons.IH [of rest] show ?case by (auto simp: fru_of_fan_def)
qed

lemma fan_fru_get_eq:
  assumes "described_frus E y name (nat (yaml_get_fan_fru_count E y name)) = Some frus"
  shows "fan_fru_get E y name fan = Inr (fru_of_fan frus fan)"
  using assms unfolding fan_fru_get_def
  by (intro fan_fru_scan_eq) (simp add: described_frus_def those_eq_Some)

lemma steady_direction:
  assumes "steady_bus E y name rd w" and "fan_fru_get E y name fan = Inr (Some fru)"
    and "yaml_get_fan_info E y name = Some info"
  shows "fand_read_direction E y name fan w =
    Inr (fan_direction_enum_to_string (seen_direction rd info fru), w)"
  using assms
  by (auto simp: fand_read_direction_def fand_read_fan_fru_direction_def seen_direction_def
      steady_bus_def split: option.splits)

lemma steady_present:
  assumes "steady_bus E y name rd w"
  shows "fand_read_present E y name (Some fru) w =
    Inr (seen_present (junk_u32 E w) rd fru, w)"
  using assms
  by (auto simp: fand_read_present_def seen_present_def steady_bus_def split: option.splits)

lemma steady_rpm:
  assumes "steady_bus E y name rd w"
  shows "fand_read_rpm E y name fan w = (seen_rpm rd fan, w)"
  using assms
  by (auto simp: fand_read_rpm_def seen_rpm_def steady_bus_def split: option.splits)

lemma steady_status:
  assumes "steady_bus E y name rd w"
  shows "fand_read_status_reg E y name fan w = (seen_status rd fan, w)"
  using assms by (auto simp: fand_read_status_reg_def seen_status_def steady_bus_def)

lemmas steady_reads = steady_direction steady_present steady_rpm steady_status

lemma fand_read_fan_status_steady:
  assumes "fan_heap s fa = Some f" and "subsystem_heap s (fan_subsystem f) = Some sub"
    and "yaml_get_fan_info E (yaml_handle s) (sub_name sub) = Some info"
    and "fan_fru_get E (yaml_handle s) (sub_name sub) (fan_yaml f) = Inr (Some fru)"
    and "steady_bus E (yaml_handle s) (sub_name sub) rd (bus s)"
    and "scale_rpm (sub_multiplier sub) (sub_numerator sub) (seen_rpm rd (fan_yaml f)) = Inr rpm"
  shows "fand_read_fan_status E fa s =
    Inr (s\<lparr>fan_heap := (fan_heap s)(fa \<mapsto> seen_fan (junk_u32 E (bus s)) rd info fru rpm f)\<rparr>)"
  using assms
  by (cases s) (auto simp: fand_read_fan_status_def Let_def steady_reads store_fan_def seen_fan_def)

text \<open>
  On any bus: the bus moves on and one fan is written, in \<open>direction\<close>, \<open>rpm\<close> and
  \<open>status\<close> only.
\<close>

definition same_identity :: "locl_fan \<Rightarrow> locl_fan \<Rightarrow> bool" where
  "same_identity f g \<longleftrightarrow> fan_name g = fan_name f \<and> fan_subsystem g = fan_subsystem f \<and>
     fan_yaml g = fan_yaml f"

lemma fand_read_fan_status_frame:
  assumes "fand_read_fan_status E fa s = Inr t"
  obtains f g w where "fan_heap s fa = Some f" and "same_identity f g"
    and "fan_speed g = fan_speed f"
    and "t = s\<lparr>bus := w, fan_heap := (fan_heap s)(fa \<mapsto> g)\<rparr>"
proof -
  from assms obtain f sub direction w p present w' where f: "fan_heap s fa = Some f"
    and "subsystem_heap s (fan_subsystem f) = Some sub"
    and "fand_read_direction E (yaml_handle s) (sub_name sub) (fan_yaml f) (bus s) = Inr (direction, w)"
    and "fan_fru_get E (yaml_handle s) (sub_name sub) (fan_yaml f) = Inr p"
    and "fand_read_present E (yaml_handle s) (sub_name sub) p w = Inr (present, w')"
    by (auto simp: fand_read_fan_status_def res_bind_eq_Inr Let_def)
  note eqs = this
  show thesis
  proof (cases present)
    case False
    with assms eqs show ?thesis
      by (intro that [OF f, of "f\<lparr>fan_direction := direction, fan_status := FAND_STATUS_FAULT,
            fan_rpm := 0\<rparr>" w']) (auto simp: fand_read_fan_status_def store_fan_def same_identity_def)
  next
    case True
    obtain rpm w'' where
      rpm: "fand_read_rpm E (yaml_handle s) (sub_name sub) (fan_yaml f) w' = (rpm, w'')"
      by fastforce
    obtain status w3 where
      status: "fand_read_status_reg E (yaml_handle s) (sub_name sub) (fan_yaml f) w'' = (status, w3)"
      by fastforce
    from True assms eqs rpm status obtain v where "t = store_fan fa (f\<lparr>fan_direction := direction,
          fan_rpm := v, fan_status := status\<rparr>) (s\<lparr>bus := w3\<rparr>)"
      by (auto simp: fand_read_fan_status_def res_bind_eq_Inr)
    then show ?thesis
      by (intro that [OF f, of "f\<lparr>fan_direction := direction, fan_rpm := v,
            fan_status := status\<rparr>" w3]) (simp_all add: store_fan_def same_identity_def)
  qed
qed

section \<open>Registers of one byte\<close>

text \<open>
  The registers of a fan controller are bytes: a read that succeeds answers less than 256.
  The library's \<open>uint32_t\<close> leaves more room, so this is a fact about the devices.
\<close>

definition byte_registers :: "('y, 'w) services \<Rightarrow> bool" where
  "byte_registers E \<longleftrightarrow> (\<forall>y w name oper c.
     fst (i2c_reg_read E y w name oper c) = 0 \<longrightarrow>
     uint (fst (snd (i2c_reg_read E y w name oper c))) < 256)"

lemma byte_registers_D:
  "byte_registers E \<Longrightarrow> i2c_reg_read E y w name oper c = (0, v, w') \<Longrightarrow> uint v < 256"
  unfolding byte_registers_def by (metis fst_conv snd_conv)

lemma byte_rpm:
  assumes "byte_registers E" and "fand_read_rpm E y name fan w = (rpm, w')"
  shows "0 \<le> sint rpm" and "sint rpm \<le> 65535"
proof -
  obtain rc v w1 where one: "i2c_reg_read E y w name (yf_fan_speed fan) 0 = (rc, v, w1)"
    by (metis prod_cases3)
  have v: "uint v < 256" if "rc = 0"
    using byte_registers_D [OF assms(1)] one that by blast
  have "0 \<le> sint rpm \<and> sint rpm \<le> 65535"
  proof (cases "yf_fan_speed_msb fan")
    case None
    with one assms(2) have "rpm = (if rc = 0 then v else 0)"
      by (auto simp: fand_read_rpm_def split: if_splits)
    with v show ?thesis by (auto simp: sint_eq_uint_small)
  next
    case (Some msb)
    obtain rc' v' w2 where two: "i2c_reg_read E y w1 name (Some msb) v = (rc', v', w2)"
      by (metis prod_cases3)
    have v': "uint v' < 256" if "rc' = 0"
      using byte_registers_D [OF assms(1)] two that by blast
    have "rpm = (if rc = 0 \<and> rc' = 0 then v + push_bit 8 v' else 0)"
      using one two Some assms(2) by (auto simp: fand_read_rpm_def split: if_splits)
    with v v' rpm_of_bytes [of v v'] show ?thesis by auto
  qed
  then show "0 \<le> sint rpm" "sint rpm \<le> 65535" by simp_all
qed

section \<open>Properties\<close>

text \<open>C24: The speed computation of \<open>fand_read_fan_status\<close> never divides by zero. It faults
  only by signed overflow, and exactly in these cases: the product of reading and multiplier
  leaves the range of \<open>int\<close>, or there is no multiplier and the numerator is the least \<open>int\<close>
  and the reading -1.\<close>

theorem scale_rpm_faults_exactly:
  "scale_rpm multiplier numerator rpm = Inl e \<longleftrightarrow> e = IntOverflow \<and>
     (if multiplier \<noteq> 0 then sint rpm * sint multiplier \<notin> {- (2 ^ 31)..<2 ^ 31}
      else sint numerator = - (2 ^ 31) \<and> sint rpm = - 1)"
  unfolding scale_rpm_eq_Inl by (auto simp: in_int_range_def)

text \<open>C20: Speed readings from byte-wide registers. The raw reading is between 0 and 65535,
  whether the speed has one register or two and whether the accesses succeed or fail; with a
  multiplier of at most 32768 in size, the speed computation then has a result, and it is the
  exact product, or the truncated quotient of the numerator, or the reading itself.\<close>

theorem byte_rpm_scales:
  assumes "byte_registers E" and "\<bar>sint multiplier\<bar> \<le> 32768"
    and "raw = fst (fand_read_rpm E y name fan w)"
  shows "0 \<le> sint raw \<and> sint raw \<le> 65535 \<and>
    (\<exists>c. scale_rpm multiplier numerator raw = Inr c \<and>
       sint c =
         (if multiplier \<noteq> 0 then sint raw * sint multiplier
          else if numerator \<noteq> 0 then (if raw = 0 then 0 else sint numerator sdiv sint raw)
          else sint raw))"
proof -
  obtain w' where rpm: "fand_read_rpm E y name fan w = (raw, w')"
    using assms(3) by (metis prod.collapse)
  note range = byte_rpm [OF assms(1) rpm]
  obtain c where c: "scale_rpm multiplier numerator raw = Inr c"
    using scale_rpm_total [OF range assms(2)] by blast
  with range scale_rpm_Inr [OF c] show ?thesis by simp
qed

lemma byte_registers_bench [simp]: "byte_registers bench"
proof -
  have "uint (ucast (b :: u8) :: u32) < 256" for b
    using uint_lt2p [of b] by (simp add: unsigned_ucast_eq take_bit_eq_mod)
  then show ?thesis
    by (auto simp: byte_registers_def bench_read_def split: option.splits)
qed

text \<open>The second fan of the bench has two speed registers: 90 + 256 pulses, times 60.\<close>

theorem byte_rpm_scales_witness:
  "\<exists>c. scale_rpm 60 0 (fst (fand_read_rpm bench [''base''] ''base''
      (bench_fan 102 ''1R'' 22 (Some 26) 32) bench_bus)) = Inr c \<and> sint c = 20760"
  using byte_rpm_scales [of bench 60 _ "[''base'']" "''base''"
      "bench_fan 102 ''1R'' 22 (Some 26) 32" bench_bus 0]
  by (simp add: fand_read_rpm_def bench_read_def bench_bus_def bench_regs_def bench_fan_def)

text \<open>C14: A reading of one fan. On a bus whose registers answer steadily, the fan object
  afterwards holds the direction its FRU's register says (front-to-back when there is no
  register or it cannot be read), and for a present fan the computed speed and the status of
  its fault register (uninitialized when it cannot be read); for a fan whose FRU is absent, or
  whose presence cannot be read, the status is fault and the speed 0. A positive return code
  of the presence read is taken as an answer. No other object changes.\<close>

theorem fand_read_fan_status_reads:
  assumes "fan_heap s fa = Some f" and "subsystem_heap s (fan_subsystem f) = Some sub"
    and "yaml_get_fan_info E (yaml_handle s) (sub_name sub) = Some info"
    and "described_frus E (yaml_handle s) (sub_name sub)
      (nat (yaml_get_fan_fru_count E (yaml_handle s) (sub_name sub))) = Some frus"
    and "fru_of_fan frus (fan_yaml f) = Some fru"
    and "steady_bus E (yaml_handle s) (sub_name sub) rd (bus s)"
    and "scale_rpm (sub_multiplier sub) (sub_numerator sub) (seen_rpm rd (fan_yaml f)) = Inr rpm"
  shows "fand_read_fan_status E fa s = Inr (s\<lparr>fan_heap := (fan_heap s)(fa \<mapsto> f\<lparr>
      fan_direction := fan_direction_enum_to_string (seen_direction rd info fru),
      fan_rpm := (if seen_present (junk_u32 E (bus s)) rd fru then rpm else 0),
      fan_status := (if seen_present (junk_u32 E (bus s)) rd fru then seen_status rd (fan_yaml f)
                     else FAND_STATUS_FAULT)\<rparr>)\<rparr>)"
proof -
  have "fan_fru_get E (yaml_handle s) (sub_name sub) (fan_yaml f) = Inr (Some fru)"
    using fan_fru_get_eq [OF assms(4), of "fan_yaml f"] assms(5) by simp
  from fand_read_fan_status_steady [OF assms(1-3) this assms(6,7)] show ?thesis
    by (simp add: seen_fan_def)
qed

definition bench_one_fan :: "(string list, bench_dev) fand" where
  "bench_one_fan =
     (bench_fand ((bench_sub FAND_SPEED_NONE FAND_SPEED_SLOW)\<lparr>subsystem_fans := [(''base-1R'', 12)]\<rparr>))
     \<lparr>fan_heap := [12 \<mapsto> bench_junk_fan\<lparr>fan_name := ''base-1R'', fan_subsystem := 1,
        fan_yaml := bench_fan 102 ''1R'' 22 (Some 26) 32\<rparr>]\<rparr>"

theorem fand_read_fan_status_reads_witness:
  "\<exists>t f. fand_read_fan_status bench 12 bench_one_fan = Inr t \<and> fan_heap t 12 = Some f \<and>
     fan_direction f = ''f2b'' \<and> sint (fan_rpm f) = 20760 \<and> fan_status f = FAND_STATUS_OK"
proof -
  let ?s = bench_one_fan and ?fan = "bench_fan 102 ''1R'' 22 (Some 26) 32"
  let ?f = "bench_junk_fan\<lparr>fan_name := ''base-1R'', fan_subsystem := 1, fan_yaml := ?fan\<rparr>"
  let ?sub = "(bench_sub FAND_SPEED_NONE FAND_SPEED_SLOW)\<lparr>subsystem_fans := [(''base-1R'', 12)]\<rparr>"
  let ?fru = "bench_frus ! 0" and ?y = "[''base'']"
  let ?rd = "\<lambda>p. case p of None \<Rightarrow> (-1, 0) | Some r \<Rightarrow> (0, ucast (bench_regs r))"
  have rpm: "seen_rpm ?rd ?fan = 346"
    by (simp add: seen_rpm_def bench_fan_def bench_regs_def)
  have f: "fan_heap ?s 12 = Some ?f" and sub: "subsystem_heap ?s (fan_subsystem ?f) = Some ?sub"
    by (simp_all add: bench_one_fan_def bench_fand_def)
  have y: "yaml_handle ?s = ?y" and name: "sub_name ?sub = ''base''"
    by (simp_all add: bench_one_fan_def bench_fand_def bench_sub_def)
  have info: "yaml_get_fan_info bench ?y ''base'' = Some bench_info"
    and frus: "described_frus bench ?y ''base'' (nat (yaml_get_fan_fru_count bench ?y ''base'')) =
      Some bench_frus"
    by simp_all
  have fru: "fru_of_fan bench_frus (fan_yaml ?f) = Some ?fru"
    by (simp add: fru_of_fan_def bench_frus_def bench_fan_def)
  have steady: "steady_bus bench ?y ''base'' ?rd (bus ?s)"
    by (auto simp: steady_bus_def bench_read_def bench_one_fan_def bench_fand_def bench_bus_def
        split: option.splits)
  have scale: "scale_rpm (sub_multiplier ?sub) (sub_numerator ?sub) (seen_rpm ?rd (fan_yaml ?f)) =
      Inr 20760"
    by (simp add: rpm bench_sub_def scale_rpm_def int_mul_def in_int_range_def)
  from fand_read_fan_status_reads [OF f sub, unfolded y name, OF info frus fru steady scale]
  show ?thesis
    by (simp add: seen_present_def seen_direction_def seen_status_def bench_frus_def bench_regs_def
        bench_info_def bench_fan_def fan_direction_enum_to_string_def fandirection_string_def)
qed

end
