(* ===== verification/Registry.thy ===== *)
theory Registry
  imports Physfan_Status
begin

text \<open>
  The registry of subsystems and fans: the first half of \<open>src/fand.c\<close>
  (\<open>init_subsystems\<close>, \<open>lookup_fan\<close>, \<open>add_subsystem\<close>, \<open>get_subsystem\<close>,
  \<open>fand_unmark_subsystems\<close>, \<open>fand_remove_unmarked_subsystems\<close>), and the state \<open>fand_init\<close>
  starts with.

  Every fan object is reachable through two tables, the global \<open>fan_data\<close> and the table of
  its subsystem, and points back to the subsystem. The invariant \<open>registry_ok\<close> (theory
  \<open>Registry_Inv\<close>) says that the three agree and that nothing dangles or leaks.
\<close>

section \<open>Rows of the database\<close>

definition lookup_fan :: "ovsdb \<Rightarrow> string \<Rightarrow> nat option" where
  "lookup_fan db name = map_option row_uuid (find (\<lambda>r. row_name r = name) (db_fans db))"

text \<open>
  \<open>ovsrec_fan_insert\<close> makes a row with a new identity and empty columns; the setters write
  one column of one row. All of them act on the transaction's view of the database.
\<close>

definition fresh_uuid :: "ovsdb \<Rightarrow> nat" where
  "fresh_uuid db = Suc (fold max (map row_uuid (db_fans db)) 0)"

definition ovsrec_fan_insert :: "ovsdb \<Rightarrow> nat \<times> ovsdb" where
  "ovsrec_fan_insert db =
     (let u = fresh_uuid db in
      (u, db\<lparr>db_fans := db_fans db @
        [\<lparr>row_uuid = u, row_name = '''', row_status = '''', row_direction = '''',
          row_speed = '''', row_rpm = None\<rparr>]\<rparr>))"

definition update_fan_row :: "nat \<Rightarrow> (ovsrec_fan \<Rightarrow> ovsrec_fan) \<Rightarrow> ovsdb \<Rightarrow> ovsdb" where
  "update_fan_row u f db =
     db\<lparr>db_fans := map (\<lambda>r. if row_uuid r = u then f r else r) (db_fans db)\<rparr>"

definition ovsrec_subsystem_set_fans :: "string \<Rightarrow> nat list \<Rightarrow> ovsdb \<Rightarrow> ovsdb" where
  "ovsrec_subsystem_set_fans name us db =
     db\<lparr>db_subsystems :=
       map (\<lambda>c. if cfg_name c = name then c\<lparr>cfg_fans := us\<rparr> else c) (db_subsystems db)\<rparr>"

text \<open>
  \<open>ovsdb_idl_txn_commit_block\<close> followed by \<open>ovsdb_idl_txn_destroy\<close>: the replica takes
  over the view if the server accepts it, and keeps its content otherwise. The daemon does
  not look at the verdict.
\<close>

definition commit_block :: "('y, 'w) services \<Rightarrow> ovsdb \<Rightarrow> ('y, 'w) fand \<Rightarrow> ('y, 'w) fand" where
  "commit_block E view s =
     s\<lparr>idl_db := (if commit_ok E (bus s) (idl_db s) view then view else idl_db s)\<rparr>"

section \<open>Adding a subsystem\<close>

definition init_subsystems :: "('y, 'w) fand \<Rightarrow> ('y, 'w) fand" where
  "init_subsystems s = s\<lparr>subsystem_data := [], fan_data := []\<rparr>"

text \<open>Lines 132 to 150; \<open>speed\<close> keeps the zero of \<open>memset\<close>, which is \<open>SLOW\<close>.\<close>

definition new_subsystem :: "ovsrec_subsystem \<Rightarrow> locl_subsystem" where
  "new_subsystem cfg =
     \<lparr>sub_name = cfg_name cfg, sub_marked = False, sub_valid = False,
      sub_parent_subsystem = None,
      sub_fan_speed = FAND_SPEED_NORMAL,
      sub_fan_speed_override =
        (case smap_get (cfg_other_config cfg) ''fan_speed_override'' of
           None \<Rightarrow> FAND_SPEED_NONE
         | Some override \<Rightarrow> fan_speed_string_to_enum (Some override)),
      sub_speed = FAND_SPEED_SLOW,
      sub_multiplier = 0, sub_numerator = 0, subsystem_fans = []\<rparr>"

text \<open>Lines 155 to 193: load the hardware description; \<open>None\<close> when any step fails.\<close>

definition load_description ::
  "('y, 'w) services \<Rightarrow> ovsrec_subsystem \<Rightarrow> 'y \<Rightarrow> yaml_fan_info option \<times> 'y" where
  "load_description E cfg y =
     (case cfg_hw_desc_dir cfg of
        None \<Rightarrow> (None, y)
      | Some dir \<Rightarrow>
          if length dir = 0 then (None, y)
          else
            let (rc, y) = yaml_add_subsystem E y (cfg_name cfg) dir in
            if rc \<noteq> 0 then (None, y)
            else
              let (rc, y) = yaml_parse_devices E y (cfg_name cfg) in
              if rc \<noteq> 0 then (None, y)
              else
                let (rc, y) = yaml_parse_fans E y (cfg_name cfg) in
                if rc \<noteq> 0 then (None, y)
                else (yaml_get_fan_info E y (cfg_name cfg), y))"

text \<open>Lines 212 to 218.\<close>

definition count_fans :: "('y, 'w) services \<Rightarrow> 'y \<Rightarrow> string \<Rightarrow> nat \<Rightarrow> nat res" where
  "count_fans E y name fru_count =
     for_each (\<lambda>idx total.
         res_bind (deref (yaml_get_fan_fru E y name idx)) (\<lambda>fru.
           Inr (total + length (fru_fans fru))))
       [0..<fru_count] 0"

text \<open>
  Lines 234 to 268: one fan. The loop state is the transaction's view, the part of
  \<open>fan_array\<close> filled so far and the process.
\<close>

definition new_fan ::
  "('y, 'w) services \<Rightarrow> addr \<Rightarrow> string \<Rightarrow> yaml_fan \<Rightarrow> ('y, 'w) fand \<Rightarrow> ('y, 'w) fand res" where
  "new_fan E a name fan s =
     res_bind (load (subsystem_heap s) a) (\<lambda>sub.
       let fa = next_addr s;
           f = (junk_fan E fa)\<lparr>fan_name := name, fan_subsystem := a, fan_yaml := fan\<rparr>
       in Inr (s\<lparr>next_addr := Suc fa,
                 fan_heap := (fan_heap s)(fa \<mapsto> f),
                 subsystem_heap := (subsystem_heap s)
                   (a \<mapsto> sub\<lparr>subsystem_fans := shash_add (subsystem_fans sub) name fa\<rparr>),
                 fan_data := shash_add (fan_data s) name fa\<rparr>))"

definition new_fan_row :: "string \<Rightarrow> ovsdb \<Rightarrow> nat \<times> ovsdb" where
  "new_fan_row name view =
     (let (u, view) = (case lookup_fan view name of
                         Some u \<Rightarrow> (u, view)
                       | None \<Rightarrow> ovsrec_fan_insert view)
      in (u, update_fan_row u (\<lambda>r. r\<lparr>row_name := name,
               row_status := fan_status_enum_to_string FAND_STATUS_UNINITIALIZED,
               row_direction := ''f2b'',
               row_speed := fan_speed_enum_to_string FAND_SPEED_NORMAL\<rparr>) view))"

definition add_fan ::
  "('y, 'w) services \<Rightarrow> string \<Rightarrow> addr \<Rightarrow> nat \<Rightarrow> yaml_fan
     \<Rightarrow> ovsdb \<times> nat list \<times> ('y, 'w) fand \<Rightarrow> (ovsdb \<times> nat list \<times> ('y, 'w) fand) res" where
  "add_fan E sname a total_fans fan = (\<lambda>(view, fan_array, s).
     let name = full_fan_name sname (yf_name fan) in
     res_bind (new_fan E a name fan s) (\<lambda>s.
       let (u, view) = new_fan_row name view in
       if length fan_array < total_fans then Inr (view, fan_array @ [u], s)
       else Inl BufferOverflow))"

text \<open>Lines 220 to 274: the transaction that makes the rows, with the loops over FRUs and fans.\<close>

definition add_all_fans ::
  "('y, 'w) services \<Rightarrow> string \<Rightarrow> addr \<Rightarrow> nat \<Rightarrow> nat \<Rightarrow> ('y, 'w) fand \<Rightarrow> ('y, 'w) fand res" where
  "add_all_fans E sname a fru_count total_fans s =
     (let s = log_event (FAN_COUNT total_fans sname) s; y = yaml_handle s in
      res_bind (for_each (\<lambda>idx st.
          res_bind (deref (yaml_get_fan_fru E y sname idx)) (\<lambda>fru.
            for_each (add_fan E sname a total_fans) (fru_fans fru) st))
        [0..<fru_count] (idl_db s, [], s)) (\<lambda>(view, fan_array, s).
      Inr (commit_block E (ovsrec_subsystem_set_fans sname fan_array view) s)))"

text \<open>Lines 195 to 278: the part after the description is loaded.\<close>

definition populate_subsystem ::
  "('y, 'w) services \<Rightarrow> string \<Rightarrow> addr \<Rightarrow> yaml_fan_info \<Rightarrow> ('y, 'w) fand
     \<Rightarrow> (addr option \<times> ('y, 'w) fand) res" where
  "populate_subsystem E sname a info s =
     res_bind (load (subsystem_heap s) a) (\<lambda>sub.
       let sub = sub\<lparr>sub_multiplier := fan_speed_multiplier info,
                     sub_numerator := fan_speed_numerator info\<rparr>;
           s = store_sub a sub s;
           y = yaml_handle s;
           fan_fru_count = yaml_get_fan_fru_count E y sname
       in if fan_fru_count \<le> 0 then Inr (None, s)
          else
            let s = store_sub a (sub\<lparr>sub_valid := True\<rparr>) s in
            res_bind (count_fans E y sname (nat fan_fru_count)) (\<lambda>total_fans.
            res_bind (add_all_fans E sname a (nat fan_fru_count) total_fans s) (\<lambda>s.
            res_bind (fand_set_fanspeed E a s) (\<lambda>s. Inr (Some a, s)))))"

definition add_subsystem ::
  "('y, 'w) services \<Rightarrow> ovsrec_subsystem \<Rightarrow> ('y, 'w) fand \<Rightarrow> (addr option \<times> ('y, 'w) fand) res"
where
  "add_subsystem E cfg s =
     (let a = next_addr s;
          s = s\<lparr>next_addr := Suc a,
                subsystem_heap := (subsystem_heap s)(a \<mapsto> new_subsystem cfg),
                subsystem_data := shash_add (subsystem_data s) (cfg_name cfg) a\<rparr>;
          (info, y) = load_description E cfg (yaml_handle s);
          s = s\<lparr>yaml_handle := y\<rparr>
      in case info of
           None \<Rightarrow> Inr (None, s)
         | Some info \<Rightarrow> populate_subsystem E (cfg_name cfg) a info s)"

definition get_subsystem ::
  "('y, 'w) services \<Rightarrow> ovsrec_subsystem \<Rightarrow> ('y, 'w) fand \<Rightarrow> (addr option \<times> ('y, 'w) fand) res"
where
  "get_subsystem E cfg s =
     (case shash_find_data (hash_bucket E) (subsystem_data s) (cfg_name cfg) of
        None \<Rightarrow> add_subsystem E cfg s
      | Some a \<Rightarrow>
          res_bind (load (subsystem_heap s) a) (\<lambda>sub.
            Inr (if \<not> sub_valid sub then None else Some a, s)))"

section \<open>Mark and sweep\<close>

definition unmark_subsystem :: "shash_node \<Rightarrow> ('y, 'w) fand \<Rightarrow> ('y, 'w) fand res" where
  "unmark_subsystem node s =
     res_bind (load (subsystem_heap s) (snd node)) (\<lambda>sub.
       Inr (store_sub (snd node) (sub\<lparr>sub_marked := False\<rparr>) s))"

definition fand_unmark_subsystems ::
  "('y, 'w) services \<Rightarrow> ('y, 'w) fand \<Rightarrow> ('y, 'w) fand res" where
  "fand_unmark_subsystems E s =
     for_each unmark_subsystem (shash_nodes (hash_bucket E) (subsystem_data s)) s"

text \<open>
  Lines 331 to 341: one fan of a subsystem that goes away. \<open>shash_delete\<close> looks into the
  node it is given, so it must not be NULL.
\<close>

definition remove_fan ::
  "('y, 'w) services \<Rightarrow> addr \<Rightarrow> shash_node \<Rightarrow> ('y, 'w) fand \<Rightarrow> ('y, 'w) fand res" where
  "remove_fan E a fan_node s =
     res_bind (load (fan_heap s) (snd fan_node)) (\<lambda>fan.
     res_bind (deref (shash_find (hash_bucket E) (fan_data s) (fan_name fan))) (\<lambda>global_node.
     res_bind (load (subsystem_heap s) a) (\<lambda>sub.
       Inr (s\<lparr>fan_data := shash_delete (fan_data s) global_node,
              subsystem_heap := (subsystem_heap s)
                (a \<mapsto> sub\<lparr>subsystem_fans := shash_delete (subsystem_fans sub) fan_node\<rparr>),
              fan_heap := (fan_heap s)(snd fan_node := None)\<rparr>))))"

definition sweep_subsystem ::
  "('y, 'w) services \<Rightarrow> shash_node \<Rightarrow> ('y, 'w) fand \<Rightarrow> ('y, 'w) fand res" where
  "sweep_subsystem E node s =
     res_bind (load (subsystem_heap s) (snd node)) (\<lambda>sub.
       if sub_marked sub then Inr s
       else
         res_bind (for_each (remove_fan E (snd node))
                    (shash_nodes (hash_bucket E) (subsystem_fans sub)) s) (\<lambda>s.
           Inr (s\<lparr>subsystem_heap := (subsystem_heap s)(snd node := None),
                  subsystem_data := shash_delete (subsystem_data s) node\<rparr>)))"

definition fand_remove_unmarked_subsystems ::
  "('y, 'w) services \<Rightarrow> ('y, 'w) fand \<Rightarrow> ('y, 'w) fand res" where
  "fand_remove_unmarked_subsystems E s =
     for_each (sweep_subsystem E) (shash_nodes (hash_bucket E) (subsystem_data s)) s"

section \<open>Initialisation\<close>

text \<open>The process after \<open>fand_init\<close>: no subsystems, and the replica's sequence number.\<close>

definition fand_init ::
  "('y, 'w) services \<Rightarrow> 'w \<Rightarrow> ovsdb \<Rightarrow> ('y, 'w) fand" where
  "fand_init E w db = init_subsystems
     \<lparr>subsystem_data = [], fan_data = [], subsystem_heap = (\<lambda>_. None), fan_heap = (\<lambda>_. None),
      next_addr = 1, yaml_handle = yaml_new_config_handle E, bus = w, idl_db = db,
      idl_seqno = db_seqno db, cur_hw_set = False, events = []\<rparr>"

end
