(* ===== verification/Registry_Inv.thy ===== *)
theory Registry_Inv
  imports Registry
begin

text \<open>
  The registry invariant: what the two tables and the heap agree on, and that the operations
  of \<open>physfan.c\<close> cannot break it (the interface \<open>physfan\<close>). Adding subsystems is shown to keep
  it in \<open>Registry_Add\<close>, unmarking and sweeping in \<open>Registry_Sweep\<close>.
\<close>

section \<open>The invariant\<close>

text \<open>
  Names are unique in both tables. A subsystem node leads to a subsystem of that name, and
  the nodes of its own table are nodes of \<open>fan_data\<close>. A fan node leads to a fan of that
  name that points back to a registered subsystem whose table has the node; a fan in a
  subsystem's table points back to that subsystem. The heap holds the registered objects
  and no others, below the next free address.
\<close>

definition subsystem_ok :: "('y, 'w) fand \<Rightarrow> shash_node \<Rightarrow> bool" where
  "subsystem_ok s node \<longleftrightarrow>
     (\<exists>sub. subsystem_heap s (snd node) = Some sub \<and> sub_name sub = fst node \<and>
        distinct (map fst (subsystem_fans sub)) \<and>
        set (subsystem_fans sub) \<subseteq> set (fan_data s) \<and>
        (\<forall>(n, fa) \<in> set (subsystem_fans sub). \<exists>f. fan_heap s fa = Some f \<and>
           fan_subsystem f = snd node))"

definition fan_ok :: "('y, 'w) fand \<Rightarrow> shash_node \<Rightarrow> bool" where
  "fan_ok s node \<longleftrightarrow>
     (\<exists>f sub. fan_heap s (snd node) = Some f \<and> fan_name f = fst node \<and>
        fan_subsystem f \<in> snd ` set (subsystem_data s) \<and>
        subsystem_heap s (fan_subsystem f) = Some sub \<and>
        node \<in> set (subsystem_fans sub))"

definition registry_ok :: "('y, 'w) fand \<Rightarrow> bool" where
  "registry_ok s \<longleftrightarrow>
     distinct (map fst (subsystem_data s)) \<and> distinct (map fst (fan_data s)) \<and>
     (\<forall>node \<in> set (subsystem_data s). subsystem_ok s node) \<and>
     (\<forall>node \<in> set (fan_data s). fan_ok s node) \<and>
     dom (subsystem_heap s) = snd ` set (subsystem_data s) \<and>
     dom (fan_heap s) = snd ` set (fan_data s) \<and>
     (\<forall>a \<in> dom (subsystem_heap s) \<union> dom (fan_heap s). a < next_addr s)"

lemma registry_ok_D:
  assumes "registry_ok s"
  shows "distinct (map fst (subsystem_data s))" "distinct (map fst (fan_data s))"
    "\<And>node. node \<in> set (subsystem_data s) \<Longrightarrow> subsystem_ok s node"
    "\<And>node. node \<in> set (fan_data s) \<Longrightarrow> fan_ok s node"
    "dom (subsystem_heap s) = snd ` set (subsystem_data s)"
    "dom (fan_heap s) = snd ` set (fan_data s)"
    "\<And>a. a \<in> dom (subsystem_heap s) \<Longrightarrow> a < next_addr s"
    "\<And>a. a \<in> dom (fan_heap s) \<Longrightarrow> a < next_addr s"
  using assms by (auto simp: registry_ok_def)

lemma registry_okI:
  assumes "distinct (map fst (subsystem_data s))" and "distinct (map fst (fan_data s))"
    and "\<And>node. node \<in> set (subsystem_data s) \<Longrightarrow> subsystem_ok s node"
    and "\<And>node. node \<in> set (fan_data s) \<Longrightarrow> fan_ok s node"
    and "dom (subsystem_heap s) = snd ` set (subsystem_data s)"
    and "dom (fan_heap s) = snd ` set (fan_data s)"
    and "\<And>a. a \<in> dom (subsystem_heap s) \<union> dom (fan_heap s) \<Longrightarrow> a < next_addr s"
  shows "registry_ok s"
  using assms unfolding registry_ok_def by blast

lemma registered_subsystem:
  assumes "registry_ok s" and "(n, a) \<in> set (subsystem_data s)"
  obtains sub where "subsystem_heap s a = Some sub" and "sub_name sub = n"
    and "fan_table_ok (fan_heap s) sub" and "set (subsystem_fans sub) \<subseteq> set (fan_data s)"
proof -
  from registry_ok_D(3) [OF assms] obtain sub where sub: "subsystem_heap s a = Some sub"
    "sub_name sub = n" "distinct (map fst (subsystem_fans sub))"
    "set (subsystem_fans sub) \<subseteq> set (fan_data s)"
    by (auto simp: subsystem_ok_def)
  have "\<exists>f. fan_heap s fa = Some f \<and> fan_name f = m" if "(m, fa) \<in> set (subsystem_fans sub)" for m fa
    using registry_ok_D(4) [OF assms(1)] sub(4) that by (fastforce simp: fan_ok_def)
  with sub that show thesis by (auto simp: fan_table_ok_def)
qed

lemma registered_fan:
  assumes "registry_ok s" and "(n, fa) \<in> set (fan_data s)"
  obtains f sub where "fan_heap s fa = Some f" and "fan_name f = n"
    and "(sub_name sub, fan_subsystem f) \<in> set (subsystem_data s)"
    and "subsystem_heap s (fan_subsystem f) = Some sub"
    and "(n, fa) \<in> set (subsystem_fans sub)"
proof -
  from registry_ok_D(4) [OF assms] obtain f sub where f: "fan_heap s fa = Some f" "fan_name f = n"
    "fan_subsystem f \<in> snd ` set (subsystem_data s)"
    "subsystem_heap s (fan_subsystem f) = Some sub" "(n, fa) \<in> set (subsystem_fans sub)"
    by (auto simp: fan_ok_def)
  from f(3) obtain m where m: "(m, fan_subsystem f) \<in> set (subsystem_data s)" by auto
  from registered_subsystem [OF assms(1) m] f(4) have "sub_name sub = m" by auto
  with f m that show thesis by blast
qed

text \<open>Addresses are unique too: a node is determined by its object's name.\<close>

lemma subsystem_addr_inj:
  assumes "registry_ok s" and "(n, a) \<in> set (subsystem_data s)" and "(m, a) \<in> set (subsystem_data s)"
  shows "n = m"
proof -
  obtain x where x: "subsystem_heap s a = Some x" "sub_name x = n"
    by (rule registered_subsystem [OF assms(1,2)]) blast
  obtain z where z: "subsystem_heap s a = Some z" "sub_name z = m"
    by (rule registered_subsystem [OF assms(1,3)]) blast
  from x z show ?thesis by simp
qed

lemma fan_addr_inj:
  assumes "registry_ok s" and "(n, a) \<in> set (fan_data s)" and "(m, a) \<in> set (fan_data s)"
  shows "n = m"
proof -
  obtain f where f: "fan_heap s a = Some f" "fan_name f = n"
    by (rule registered_fan [OF assms(1,2)]) blast
  obtain g where g: "fan_heap s a = Some g" "fan_name g = m"
    by (rule registered_fan [OF assms(1,3)]) blast
  from f g show ?thesis by simp
qed

section \<open>The interface of \<open>physfan.c\<close>\<close>

text \<open>
  Two states with the same registry: the same tables, and the same objects up to the
  members the registry does not speak about.
\<close>

definition same_subsystem :: "locl_subsystem \<Rightarrow> locl_subsystem \<Rightarrow> bool" where
  "same_subsystem x z \<longleftrightarrow> sub_name z = sub_name x \<and> subsystem_fans z = subsystem_fans x"

definition same_registry :: "('y, 'w) fand \<Rightarrow> ('y, 'w) fand \<Rightarrow> bool" where
  "same_registry s t \<longleftrightarrow>
     subsystem_data t = subsystem_data s \<and> fan_data t = fan_data s \<and>
     next_addr t = next_addr s \<and>
     (\<forall>a. rel_option same_subsystem (subsystem_heap s a) (subsystem_heap t a)) \<and>
     (\<forall>a. rel_option same_identity (fan_heap s a) (fan_heap t a))"

lemma same_subsystem_refl [simp]: "same_subsystem x x"
  and same_identity_refl [simp]: "same_identity f f"
  by (simp_all add: same_subsystem_def same_identity_def)

lemma same_subsystem_trans:
  "same_subsystem x y \<Longrightarrow> same_subsystem y z \<Longrightarrow> same_subsystem x z"
  by (simp add: same_subsystem_def)

lemma same_identity_trans: "same_identity f g \<Longrightarrow> same_identity g h \<Longrightarrow> same_identity f h"
  by (simp add: same_identity_def)

lemma same_registry_refl [simp]: "same_registry s s"
  by (auto simp: same_registry_def intro: option.rel_refl)

lemma rel_option_trans:
  assumes "rel_option R x y" and "rel_option R y z" and "\<And>a b c. R a b \<Longrightarrow> R b c \<Longrightarrow> R a c"
  shows "rel_option R x z"
  using assms(1,2) by (cases x; cases y; cases z) (simp_all, blast intro: assms(3))

lemma rel_option_None_iff: "rel_option R x y \<Longrightarrow> y = None \<longleftrightarrow> x = None"
  by (cases x; cases y) auto

lemma same_registry_D:
  assumes "same_registry s t"
  shows "rel_option same_subsystem (subsystem_heap s a) (subsystem_heap t a)"
    and "rel_option same_identity (fan_heap s a) (fan_heap t a)"
    and "subsystem_data t = subsystem_data s" "fan_data t = fan_data s" "next_addr t = next_addr s"
  using assms by (simp_all add: same_registry_def)

lemma same_registry_trans:
  assumes "same_registry s t" and "same_registry t u"
  shows "same_registry s u"
proof -
  note st = same_registry_D [OF assms(1)] and tu = same_registry_D [OF assms(2)]
  show ?thesis
    using rel_option_trans [OF st(1) tu(1) same_subsystem_trans]
      rel_option_trans [OF st(2) tu(2) same_identity_trans]
    by (simp add: same_registry_def st(3-5) tu(3-5))
qed

lemma same_registry_doms:
  assumes "same_registry s t"
  shows "dom (subsystem_heap t) = dom (subsystem_heap s)" "dom (fan_heap t) = dom (fan_heap s)"
  using rel_option_None_iff [OF same_registry_D(1) [OF assms]]
    rel_option_None_iff [OF same_registry_D(2) [OF assms]]
  by (simp_all add: dom_def)

lemma same_registry_load:
  assumes "same_registry s t"
  shows "subsystem_heap s a = Some x \<Longrightarrow> \<exists>z. subsystem_heap t a = Some z \<and> same_subsystem x z"
    and "fan_heap s a = Some f \<Longrightarrow> \<exists>g. fan_heap t a = Some g \<and> same_identity f g"
  using same_registry_D(1) [OF assms, of a] same_registry_D(2) [OF assms, of a]
  by (auto simp: option_rel_Some1)

lemma same_registry_subsystem_ok:
  assumes "same_registry s t" and "subsystem_ok s node"
  shows "subsystem_ok t node"
proof -
  from assms(2) obtain x where x: "subsystem_heap s (snd node) = Some x" "sub_name x = fst node"
    "distinct (map fst (subsystem_fans x))" "set (subsystem_fans x) \<subseteq> set (fan_data s)"
    "\<And>n fa. (n, fa) \<in> set (subsystem_fans x) \<Longrightarrow>
       \<exists>f. fan_heap s fa = Some f \<and> fan_subsystem f = snd node"
    unfolding subsystem_ok_def by blast
  from same_registry_load(1) [OF assms(1) x(1)] obtain z where
    z: "subsystem_heap t (snd node) = Some z" "same_subsystem x z" by blast
  have "\<exists>f. fan_heap t fa = Some f \<and> fan_subsystem f = snd node"
    if "(n, fa) \<in> set (subsystem_fans x)" for n fa
    using x(5) [OF that] same_registry_load(2) [OF assms(1), of fa]
    by (auto simp: same_identity_def)
  with x z same_registry_D(4) [OF assms(1)] show ?thesis
    by (auto simp: subsystem_ok_def same_subsystem_def)
qed

lemma same_registry_fan_ok:
  assumes "same_registry s t" and "fan_ok s node"
  shows "fan_ok t node"
proof -
  from assms(2) obtain f x where f: "fan_heap s (snd node) = Some f" "fan_name f = fst node"
    "fan_subsystem f \<in> snd ` set (subsystem_data s)"
    "subsystem_heap s (fan_subsystem f) = Some x" "node \<in> set (subsystem_fans x)"
    unfolding fan_ok_def by blast
  from same_registry_load(2) [OF assms(1) f(1)] obtain g where
    g: "fan_heap t (snd node) = Some g" "same_identity f g" by blast
  from same_registry_load(1) [OF assms(1) f(4)] obtain z where
    z: "subsystem_heap t (fan_subsystem f) = Some z" "same_subsystem x z" by blast
  from f g z same_registry_D(3) [OF assms(1)] show ?thesis
    by (auto simp: fan_ok_def same_subsystem_def same_identity_def)
qed

lemma same_registry_ok:
  assumes "same_registry s t" and "registry_ok s"
  shows "registry_ok t"
  using assms same_registry_doms [OF assms(1)]
    same_registry_subsystem_ok [OF assms(1)] same_registry_fan_ok [OF assms(1)]
    same_registry_D(3-5) [OF assms(1)]
  by (simp add: registry_ok_def)

text \<open>The parts of the process outside the registry and the bus.\<close>

definition same_outside :: "('y, 'w) fand \<Rightarrow> ('y, 'w) fand \<Rightarrow> bool" where
  "same_outside s t \<longleftrightarrow> yaml_handle t = yaml_handle s \<and> idl_db t = idl_db s \<and>
     idl_seqno t = idl_seqno s \<and> cur_hw_set t = cur_hw_set s"

lemma same_outside_refl [simp]: "same_outside s s"
  by (simp add: same_outside_def)

lemma same_outside_trans: "same_outside s t \<Longrightarrow> same_outside t u \<Longrightarrow> same_outside s u"
  by (simp add: same_outside_def)

text \<open>
  The contract of the three operations of \<open>physfan.h\<close> with their caller: they leave the
  registry and everything outside it alone.
\<close>

locale physfan =
  fixes set_fanspeed :: "addr \<Rightarrow> ('y, 'w) fand \<Rightarrow> ('y, 'w) fand res"
    and set_fanleds :: "addr \<Rightarrow> ('y, 'w) fand \<Rightarrow> ('y, 'w) fand res"
    and read_fan_status :: "addr \<Rightarrow> ('y, 'w) fand \<Rightarrow> ('y, 'w) fand res"
  assumes set_fanspeed_same: "set_fanspeed a s = Inr t \<Longrightarrow> same_registry s t \<and> same_outside s t"
    and set_fanleds_same: "set_fanleds a s = Inr t \<Longrightarrow> same_registry s t \<and> same_outside s t"
    and read_fan_status_same:
      "read_fan_status a s = Inr t \<Longrightarrow> same_registry s t \<and> same_outside s t"
begin

lemma set_fanspeed_ok: "set_fanspeed a s = Inr t \<Longrightarrow> registry_ok s \<Longrightarrow> registry_ok t"
  using set_fanspeed_same same_registry_ok by blast

lemma set_fanleds_ok: "set_fanleds a s = Inr t \<Longrightarrow> registry_ok s \<Longrightarrow> registry_ok t"
  using set_fanleds_same same_registry_ok by blast

text \<open>Any loop of readings, however the fans are chosen.\<close>

lemma read_loop_same:
  assumes "for_each read_fan_status addrs s = Inr t"
  shows "same_registry s t \<and> same_outside s t"
  using assms
proof (rule for_each_invariant [where P = "\<lambda>t. same_registry s t \<and> same_outside s t"])
  fix a u v
  assume "same_registry s u \<and> same_outside s u" and "read_fan_status a u = Inr v"
  with read_fan_status_same show "same_registry s v \<and> same_outside s v"
    using same_registry_trans same_outside_trans by blast
qed simp

end

lemma same_registry_subsystem_update:
  assumes "subsystem_heap s a = Some x" and "same_subsystem x z"
  shows "same_registry s (s\<lparr>subsystem_heap := (subsystem_heap s)(a \<mapsto> z)\<rparr>)"
  using assms by (auto simp: same_registry_def intro: option.rel_refl)

lemma same_registry_fan_update:
  assumes "fan_heap s a = Some f" and "same_identity f g"
  shows "same_registry s (s\<lparr>fan_heap := (fan_heap s)(a \<mapsto> g)\<rparr>)"
  using assms by (auto simp: same_registry_def intro: option.rel_refl)

lemma same_registry_other [simp]:
  "same_registry s (t\<lparr>bus := w\<rparr>) = same_registry s t"
  "same_registry s (t\<lparr>events := ev\<rparr>) = same_registry s t"
  "same_registry s (t\<lparr>yaml_handle := y\<rparr>) = same_registry s t"
  "same_registry s (t\<lparr>idl_db := db\<rparr>) = same_registry s t"
  "same_registry s (t\<lparr>idl_seqno := n\<rparr>) = same_registry s t"
  "same_registry s (t\<lparr>cur_hw_set := b\<rparr>) = same_registry s t"
  "same_registry (s\<lparr>bus := w\<rparr>) t = same_registry s t"
  by (simp_all add: same_registry_def)

lemma registry_ok_other [simp]:
  "registry_ok (t\<lparr>bus := w\<rparr>) = registry_ok t"
  "registry_ok (t\<lparr>events := ev\<rparr>) = registry_ok t"
  "registry_ok (t\<lparr>yaml_handle := y\<rparr>) = registry_ok t"
  "registry_ok (t\<lparr>idl_db := db\<rparr>) = registry_ok t"
  "registry_ok (t\<lparr>idl_seqno := n\<rparr>) = registry_ok t"
  "registry_ok (t\<lparr>cur_hw_set := b\<rparr>) = registry_ok t"
  by (simp_all add: registry_ok_def subsystem_ok_def fan_ok_def)

interpretation phys: physfan "fand_set_fanspeed E" "fand_set_fanleds E" "fand_read_fan_status E"
  for E :: "('y, 'w) services"
proof unfold_locales
  fix a and s t :: "('y, 'w) fand"
  show "same_registry s t \<and> same_outside s t" if "fand_set_fanspeed E a s = Inr t"
    using that
    by (rule fand_set_fanspeed_frame)
      (auto simp: same_outside_def same_subsystem_def intro!: same_registry_subsystem_update)
  show "same_registry s t \<and> same_outside s t" if "fand_set_fanleds E a s = Inr t"
    using that by (rule fand_set_fanleds_frame) (auto simp: same_outside_def)
  show "same_registry s t \<and> same_outside s t" if "fand_read_fan_status E a s = Inr t"
    using that
  proof (rule fand_read_fan_status_frame)
    fix f g w
    assume f: "fan_heap s a = Some f" "same_identity f g"
      and t: "t = s\<lparr>bus := w, fan_heap := (fan_heap s)(a \<mapsto> g)\<rparr>"
    have "same_registry (s\<lparr>bus := w\<rparr>) (s\<lparr>bus := w, fan_heap := (fan_heap (s\<lparr>bus := w\<rparr>))(a \<mapsto> g)\<rparr>)"
      using f by (intro same_registry_fan_update) auto
    then show ?thesis by (simp add: t same_outside_def)
  qed
qed

end
