(* ===== verification/Registry_Add.thy ===== *)
theory Registry_Add
  imports Registry_Inv
begin

text \<open>
  Adding a subsystem keeps the registry invariant, fills \<open>fan_array\<close> exactly, and leaves
  the subsystem and its fans registered under their names.
\<close>

section \<open>One fan\<close>

lemma registry_fresh:
  assumes "registry_ok s"
  shows "subsystem_heap s (next_addr s) = None" "fan_heap s (next_addr s) = None"
  using registry_ok_D(7,8) [OF assms, of "next_addr s"]
  by (cases "subsystem_heap s (next_addr s)"; cases "fan_heap s (next_addr s)"; auto)+

lemma new_fan_ok:
  assumes ok: "registry_ok s" and a: "(sname, a) \<in> set (subsystem_data s)"
    and new: "name \<notin> fst ` set (fan_data s)"
  obtains t sub where "new_fan E a name fan s = Inr t" and "registry_ok t"
    and "subsystem_data t = subsystem_data s"
    and "fan_data t = (name, next_addr s) # fan_data s"
    and "same_outside s t" and "bus t = bus s" and "events t = events s"
    and "subsystem_heap s a = Some sub"
    and "subsystem_heap t = (subsystem_heap s)
      (a \<mapsto> sub\<lparr>subsystem_fans := (name, next_addr s) # subsystem_fans sub\<rparr>)"
    and "fan_heap t = (fan_heap s)(next_addr s \<mapsto> (junk_fan E (next_addr s))
      \<lparr>fan_name := name, fan_subsystem := a, fan_yaml := fan\<rparr>)"
proof -
  obtain sub where sub: "subsystem_heap s a = Some sub" "sub_name sub = sname"
    "set (subsystem_fans sub) \<subseteq> set (fan_data s)"
    using registered_subsystem [OF ok a] by metis
  let ?fa = "next_addr s"
  let ?f = "(junk_fan E ?fa)\<lparr>fan_name := name, fan_subsystem := a, fan_yaml := fan\<rparr>"
  let ?sub = "sub\<lparr>subsystem_fans := (name, ?fa) # subsystem_fans sub\<rparr>"
  define t where "t = s\<lparr>next_addr := Suc ?fa, fan_heap := (fan_heap s)(?fa \<mapsto> ?f),
      subsystem_heap := (subsystem_heap s)(a \<mapsto> ?sub), fan_data := (name, ?fa) # fan_data s\<rparr>"
  have run: "new_fan E a name fan s = Inr t"
    by (simp add: new_fan_def sub t_def Let_def shash_add_def)
  have fresh: "fan_heap s ?fa = None" by (rule registry_fresh(2) [OF ok])
  have "subsystem_ok t node" if node: "node \<in> set (subsystem_data s)" for node
  proof -
    from registry_ok_D(3) [OF ok node] obtain x where x:
      "subsystem_heap s (snd node) = Some x" "sub_name x = fst node"
      "distinct (map fst (subsystem_fans x))" "set (subsystem_fans x) \<subseteq> set (fan_data s)"
      "\<And>n fa. (n, fa) \<in> set (subsystem_fans x) \<Longrightarrow>
         \<exists>f. fan_heap s fa = Some f \<and> fan_subsystem f = snd node"
      unfolding subsystem_ok_def by blast
    have keep: "fa \<noteq> ?fa \<and> (\<exists>f. fan_heap s fa = Some f \<and> fan_subsystem f = snd node)"
      if "(n, fa) \<in> set (subsystem_fans x)" for n fa
      using x(5) [OF that] fresh by auto
    have "name \<notin> fst ` set (subsystem_fans x)" using new x(4) by auto
    then show ?thesis
      using x keep sub(1) by (cases "snd node = a") (auto simp: subsystem_ok_def t_def dest: keep)
  qed
  moreover have "fan_ok t node" if node: "node \<in> set (fan_data t)" for node
  proof (cases "node = (name, ?fa)")
    case True
    then show ?thesis using a by (force simp: fan_ok_def t_def)
  next
    case False
    with node have "node \<in> set (fan_data s)" by (simp add: t_def)
    from registry_ok_D(4) [OF ok this] obtain f x where f:
      "fan_heap s (snd node) = Some f" "fan_name f = fst node"
      "fan_subsystem f \<in> snd ` set (subsystem_data s)"
      "subsystem_heap s (fan_subsystem f) = Some x" "node \<in> set (subsystem_fans x)"
      unfolding fan_ok_def by blast
    moreover have "snd node \<noteq> ?fa" using f(1) fresh by auto
    ultimately show ?thesis using sub(1) by (auto simp: fan_ok_def t_def)
  qed
  moreover have doms: "dom (subsystem_heap t) = dom (subsystem_heap s)"
      "dom (fan_heap t) = insert ?fa (dom (fan_heap s))"
    using sub(1) by (auto simp: t_def)
  moreover have tables: "subsystem_data t = subsystem_data s"
      "fan_data t = (name, ?fa) # fan_data s" "next_addr t = Suc ?fa"
    by (simp_all add: t_def)
  moreover have "b < next_addr t" if "b \<in> dom (subsystem_heap t) \<union> dom (fan_heap t)" for b
    using that registry_ok_D(7,8) [OF ok, of b] unfolding doms tables
    by (metis Un_iff insert_iff less_Suc_eq)
  ultimately have "registry_ok t"
    using registry_ok_D(1,2,5,6) [OF ok] new by (intro registry_okI) auto
  with run sub(1) that show thesis by (simp add: t_def same_outside_def)
qed

section \<open>All fans of a subsystem\<close>

text \<open>What adding a list of fans does to the process.\<close>

definition node_of_fan :: "('y, 'w) fand \<Rightarrow> string \<Rightarrow> yaml_fan \<Rightarrow> shash_node \<Rightarrow> bool" where
  "node_of_fan t sname fan node \<longleftrightarrow>
     fst node = full_fan_name sname (yf_name fan) \<and>
     (\<exists>f. fan_heap t (snd node) = Some f \<and> fan_yaml f = fan)"

definition fans_added ::
  "string \<Rightarrow> addr \<Rightarrow> yaml_fan list \<Rightarrow> ('y, 'w) fand \<Rightarrow> ('y, 'w) fand \<Rightarrow> bool" where
  "fans_added sname a fans s t \<longleftrightarrow>
     subsystem_data t = subsystem_data s \<and> same_outside s t \<and> bus t = bus s \<and>
     events t = events s \<and>
     (\<forall>b. b \<noteq> a \<longrightarrow> subsystem_heap t b = subsystem_heap s b) \<and>
     (\<forall>fa f. fan_heap s fa = Some f \<longrightarrow> fan_heap t fa = Some f) \<and>
     (\<exists>sub nodes. subsystem_heap s a = Some sub \<and>
        subsystem_heap t a = Some (sub\<lparr>subsystem_fans := nodes @ subsystem_fans sub\<rparr>) \<and>
        fan_data t = nodes @ fan_data s \<and>
        list_all2 (node_of_fan t sname) (rev fans) nodes)"

definition fan_names :: "string \<Rightarrow> yaml_fan list \<Rightarrow> string list" where
  "fan_names sname fans = map (\<lambda>fan. full_fan_name sname (yf_name fan)) fans"

lemma fan_names_simps [simp]:
  "fan_names sname [] = []"
  "fan_names sname (fan # fans) = full_fan_name sname (yf_name fan) # fan_names sname fans"
  by (simp_all add: fan_names_def)

lemma node_of_fan_names:
  "list_all2 (node_of_fan t sname) fans nodes \<Longrightarrow> map fst nodes = fan_names sname fans"
  by (induction rule: list_all2_induct) (auto simp: node_of_fan_def)

lemma fans_added_keys:
  assumes "fans_added sname a fans s t"
  shows "fst ` set (fan_data t) = set (fan_names sname fans) \<union> fst ` set (fan_data s)"
proof -
  from assms obtain nodes where nodes: "fan_data t = nodes @ fan_data s"
    "list_all2 (node_of_fan t sname) (rev fans) nodes"
    unfolding fans_added_def by blast
  have "fst ` set nodes = set (fan_names sname fans)"
    using arg_cong [OF node_of_fan_names [OF nodes(2)], of set] by (simp add: fan_names_def)
  with nodes(1) show ?thesis by (simp add: image_Un)
qed

lemma fans_added_Nil: "subsystem_heap s a = Some sub \<Longrightarrow> fans_added sname a [] s s"
  by (auto simp: fans_added_def)

lemma fans_added_Cons:
  assumes one: "fans_added sname a [fan] s t" and rest: "fans_added sname a fans t u"
  shows "fans_added sname a (fan # fans) s u"
proof -
  from one obtain sub n fa f where s: "subsystem_heap s a = Some sub"
    "subsystem_heap t a = Some (sub\<lparr>subsystem_fans := (n, fa) # subsystem_fans sub\<rparr>)"
    "fan_data t = (n, fa) # fan_data s"
    "n = full_fan_name sname (yf_name fan)" "fan_heap t fa = Some f" "fan_yaml f = fan"
    by (auto simp: fans_added_def list_all2_Cons1 node_of_fan_def)
  from rest obtain nodes where t:
    "subsystem_heap u a = Some (sub\<lparr>subsystem_fans := nodes @ (n, fa) # subsystem_fans sub\<rparr>)"
    "fan_data u = nodes @ fan_data t"
    "list_all2 (node_of_fan u sname) (rev fans) nodes"
    "\<And>fa f. fan_heap t fa = Some f \<Longrightarrow> fan_heap u fa = Some f"
    using s(2) by (auto simp: fans_added_def)
  have "list_all2 (node_of_fan u sname) (rev (fan # fans)) (nodes @ [(n, fa)])"
    using t(3) t(4) [OF s(5)] s(4,6) by (simp add: list_all2_appendI node_of_fan_def)
  with one rest s(1,3) t(1,2) show ?thesis
    by (auto simp: fans_added_def intro: same_outside_trans)
qed

text \<open>The rows of the transaction do not depend on the process.\<close>

definition add_row :: "string \<Rightarrow> yaml_fan \<Rightarrow> ovsdb \<times> nat list \<Rightarrow> ovsdb \<times> nat list" where
  "add_row sname fan = (\<lambda>(view, fan_array).
     let (u, view) = new_fan_row (full_fan_name sname (yf_name fan)) view
     in (view, fan_array @ [u]))"

lemma add_fans_ok:
  assumes "registry_ok s" and "(sname, a) \<in> set (subsystem_data s)"
    and "distinct (fan_names sname fans)"
    and "set (fan_names sname fans) \<inter> fst ` set (fan_data s) = {}"
    and "length fan_array + length fans \<le> total_fans"
    and "fold (add_row sname) fans (view, fan_array) = (view', fan_array')"
  shows "\<exists>t. for_each (add_fan E sname a total_fans) fans (view, fan_array, s) = Inr (view', fan_array', t)
    \<and> registry_ok t \<and> fans_added sname a fans s t"
  using assms
proof (induction fans arbitrary: view fan_array s)
  case Nil
  obtain sub where "subsystem_heap s a = Some sub"
    using registered_subsystem [OF Nil.prems(1,2)] .
  with Nil show ?case by (auto intro: fans_added_Nil)
next
  case (Cons fan fans)
  let ?name = "full_fan_name sname (yf_name fan)"
  obtain u view1 where row: "new_fan_row ?name view = (u, view1)" by fastforce
  have "?name \<notin> fst ` set (fan_data s)" using Cons.prems(4) by auto
  then obtain t sub where
    t: "new_fan E a ?name fan s = Inr t" "registry_ok t" "subsystem_data t = subsystem_data s"
      "fan_data t = (?name, next_addr s) # fan_data s" and
    t': "same_outside s t" "bus t = bus s" "events t = events s" "subsystem_heap s a = Some sub"
      "subsystem_heap t = (subsystem_heap s)
        (a \<mapsto> sub\<lparr>subsystem_fans := (?name, next_addr s) # subsystem_fans sub\<rparr>)"
      "fan_heap t = (fan_heap s)(next_addr s \<mapsto> (junk_fan E (next_addr s))
        \<lparr>fan_name := ?name, fan_subsystem := a, fan_yaml := fan\<rparr>)"
    by (rule new_fan_ok [OF Cons.prems(1,2)])
  have one: "fans_added sname a [fan] s t"
    using t(3,4) t' registry_fresh(2) [OF Cons.prems(1)] by (auto simp: fans_added_def node_of_fan_def)
  have "set (fan_names sname fans) \<inter> fst ` set (fan_data t) = {}"
    using Cons.prems(3,4) t(4) by auto
  moreover have "fold (add_row sname) fans (view1, fan_array @ [u]) = (view', fan_array')"
    using Cons.prems(6) row by (simp add: add_row_def [of sname fan])
  ultimately obtain z where
    z: "for_each (add_fan E sname a total_fans) fans (view1, fan_array @ [u], t) = Inr (view', fan_array', z)"
      "registry_ok z" "fans_added sname a fans t z"
    using Cons.IH [OF t(2), of "fan_array @ [u]" view1] Cons.prems(2,3,5) t(3) by auto
  have "add_fan E sname a total_fans fan (view, fan_array, s) = Inr (view1, fan_array @ [u], t)"
    using t(1) row Cons.prems(5) by (simp add: add_fan_def Let_def)
  with z fans_added_Cons [OF one z(3)] show ?case by auto
qed

section \<open>The whole subsystem\<close>

text \<open>
  A complete description: the library has the fan information and an FRU for each index,
  and its two FRU counts agree.
\<close>

definition described ::
  "('y, 'w) services \<Rightarrow> 'y \<Rightarrow> string \<Rightarrow> yaml_fan_info \<Rightarrow> yaml_fan_fru list \<Rightarrow> bool" where
  "described E y name info frus \<longleftrightarrow>
     yaml_get_fan_info E y name = Some info \<and>
     described_frus E y name (nat (yaml_get_fan_fru_count E y name)) = Some frus \<and>
     number_fan_frus info = nat (yaml_get_fan_fru_count E y name)"

abbreviation all_fans :: "yaml_fan_fru list \<Rightarrow> yaml_fan list" where
  "all_fans frus \<equiv> concat (map fru_fans frus)"

lemma count_fans_eq:
  assumes "described_frus E y name n = Some frus"
  shows "count_fans E y name n = Inr (length (all_fans frus))"
proof -
  have "count_fans E y name n =
      for_each (\<lambda>fru total. Inr (total + length (fru_fans fru))) frus 0"
    unfolding count_fans_def using assms
    by (intro for_each_upt) (auto simp: described_frus_def)
  also have "\<dots> = Inr (fold (\<lambda>fru total. total + length (fru_fans fru)) frus 0)"
    by (rule for_each_total) simp
  also have "fold (\<lambda>fru total. total + length (fru_fans fru)) frus k = k + length (all_fans frus)" for k
    by (induction frus arbitrary: k) auto
  finally show ?thesis by simp
qed

lemma add_loop_eq:
  assumes "described_frus E y name n = Some frus"
  shows "for_each (\<lambda>idx st. res_bind (deref (yaml_get_fan_fru E y name idx)) (\<lambda>fru.
             for_each (add_fan E name a total_fans) (fru_fans fru) st)) [0..<n] st =
         for_each (add_fan E name a total_fans) (all_fans frus) st"
proof -
  have "for_each (\<lambda>idx st. res_bind (deref (yaml_get_fan_fru E y name idx)) (\<lambda>fru.
             for_each (add_fan E name a total_fans) (fru_fans fru) st)) [0..<n] st =
        for_each (\<lambda>fru. for_each (add_fan E name a total_fans) (fru_fans fru)) frus st"
    using assms by (intro for_each_upt) (auto simp: described_frus_def)
  then show ?thesis by (simp add: for_each_concat)
qed

text \<open>The view of the database that the new fans make.\<close>

definition rows_for :: "string \<Rightarrow> yaml_fan list \<Rightarrow> ovsdb \<Rightarrow> ovsdb" where
  "rows_for sname fans db =
     (let (view, fan_array) = fold (add_row sname) fans (db, [])
      in ovsrec_subsystem_set_fans sname fan_array view)"

lemma add_all_fans_ok:
  assumes ok: "registry_ok s" and a: "(sname, a) \<in> set (subsystem_data s)"
    and x: "subsystem_heap s a = Some x" "subsystem_fans x = []"
    and frus: "described_frus E (yaml_handle s) sname n = Some frus"
    and names: "distinct (fan_names sname (all_fans frus))"
      "set (fan_names sname (all_fans frus)) \<inter> fst ` set (fan_data s) = {}"
  obtains t nodes where "add_all_fans E sname a n (length (all_fans frus)) s = Inr t"
    and "registry_ok t" and "subsystem_data t = subsystem_data s"
    and "yaml_handle t = yaml_handle s"
    and "fst ` set (fan_data t) = set (fan_names sname (all_fans frus)) \<union> fst ` set (fan_data s)"
    and "subsystem_heap t = (subsystem_heap s)(a \<mapsto> x\<lparr>subsystem_fans := nodes\<rparr>)"
    and "\<forall>fa f. fan_heap s fa = Some f \<longrightarrow> fan_heap t fa = Some f"
    and "list_all2 (node_of_fan t sname) (rev (all_fans frus)) nodes"
    and "idl_seqno t = idl_seqno s" and "cur_hw_set t = cur_hw_set s"
    and "idl_db t = (if commit_ok E (bus s) (idl_db s) (rows_for sname (all_fans frus) (idl_db s))
      then rows_for sname (all_fans frus) (idl_db s) else idl_db s)"
proof -
  let ?fans = "all_fans frus"
  define s3 where "s3 = log_event (FAN_COUNT (length ?fans) sname) s"
  have s3: "registry_ok s3" "subsystem_data s3 = subsystem_data s" "fan_data s3 = fan_data s"
    "idl_db s3 = idl_db s" "yaml_handle s3 = yaml_handle s" "bus s3 = bus s"
    "subsystem_heap s3 = subsystem_heap s" "fan_heap s3 = fan_heap s"
    "idl_seqno s3 = idl_seqno s" "cur_hw_set s3 = cur_hw_set s"
    using ok by (simp_all add: s3_def log_event_def)
  obtain view arr where rows: "fold (add_row sname) ?fans (idl_db s3, []) = (view, arr)"
    by fastforce
  obtain s4 where s4: "for_each (add_fan E sname a (length ?fans)) ?fans (idl_db s3, [], s3) =
      Inr (view, arr, s4)" "registry_ok s4" and added: "fans_added sname a ?fans s3 s4"
    using add_fans_ok [OF s3(1) _ names(1) _ _ rows, of a "length ?fans" E] a names(2) s3(2,3)
    by auto
  from added obtain nodes where
    x4: "subsystem_heap s4 a = Some (x\<lparr>subsystem_fans := nodes\<rparr>)"
    and nodes: "list_all2 (node_of_fan s4 sname) (rev ?fans) nodes"
    by (auto simp: fans_added_def s3 x)
  have view: "ovsrec_subsystem_set_fans sname arr view = rows_for sname ?fans (idl_db s)"
    using rows by (simp add: rows_for_def s3)
  define t where "t = commit_block E (rows_for sname ?fans (idl_db s)) s4"
  have t: "subsystem_data t = subsystem_data s4" "fan_data t = fan_data s4"
    "subsystem_heap t = subsystem_heap s4" "fan_heap t = fan_heap s4"
    "registry_ok t" "same_outside s4 (t\<lparr>idl_db := idl_db s4\<rparr>)"
    using s4(2) by (simp_all add: t_def commit_block_def same_outside_def)
  show thesis
  proof (rule that)
    show "add_all_fans E sname a n (length ?fans) s = Inr t"
      using s4(1) by (simp add: add_all_fans_def Let_def s3_def [symmetric] s3(5)
          add_loop_eq [OF frus] view t_def)
    show "subsystem_heap t = (subsystem_heap s)(a \<mapsto> x\<lparr>subsystem_fans := nodes\<rparr>)"
      using added x4 unfolding t(3) s3(7) [symmetric] by (auto simp: fans_added_def)
    show "fst ` set (fan_data t) = set (fan_names sname ?fans) \<union> fst ` set (fan_data s)"
      using fans_added_keys [OF added] by (simp add: t(2) s3(3))
    show "list_all2 (node_of_fan t sname) (rev ?fans) nodes"
      using nodes by (simp add: node_of_fan_def [abs_def] t(4))
  qed (use added t s3 in \<open>auto simp: fans_added_def same_outside_def t_def commit_block_def\<close>)
qed

text \<open>
  The state after a subsystem was populated. The record of the subsystem becomes \<open>z\<close>, the
  fans of the description are registered and nothing else in the registry changes.
\<close>

definition populated ::
  "('y, 'w) services \<Rightarrow> string \<Rightarrow> addr \<Rightarrow> yaml_fan_info \<Rightarrow> yaml_fan_fru list
     \<Rightarrow> locl_subsystem \<Rightarrow> ('y, 'w) fand \<Rightarrow> ('y, 'w) fand \<Rightarrow> bool" where
  "populated E sname a info frus sub s t \<longleftrightarrow>
     registry_ok t \<and> subsystem_data t = subsystem_data s \<and> yaml_handle t = yaml_handle s \<and>
     idl_seqno t = idl_seqno s \<and> cur_hw_set t = cur_hw_set s \<and>
     fst ` set (fan_data t) = set (fan_names sname (all_fans frus)) \<union> fst ` set (fan_data s) \<and>
     idl_db t = (if commit_ok E (bus s) (idl_db s) (rows_for sname (all_fans frus) (idl_db s))
      then rows_for sname (all_fans frus) (idl_db s) else idl_db s) \<and>
     (\<forall>fa f. fan_heap s fa = Some f \<longrightarrow> fan_heap t fa = Some f) \<and>
     (\<exists>nodes. list_all2 (node_of_fan t sname) (rev (all_fans frus)) nodes \<and>
        subsystem_heap t = (subsystem_heap s)(a \<mapsto> sub\<lparr>
          sub_multiplier := fan_speed_multiplier info,
          sub_numerator := fan_speed_numerator info, sub_valid := True,
          subsystem_fans := nodes,
          sub_speed := effective_speed (sub_fan_speed_override sub) (sub_fan_speed sub)\<rparr>))"

lemma populate_subsystem_ok:
  assumes ok: "registry_ok s" and a: "(sname, a) \<in> set (subsystem_data s)"
    and sub: "subsystem_heap s a = Some sub" "subsystem_fans sub = []"
    and desc: "described E (yaml_handle s) sname info frus" "frus \<noteq> []"
    and names: "distinct (fan_names sname (all_fans frus))"
      "set (fan_names sname (all_fans frus)) \<inter> fst ` set (fan_data s) = {}"
  obtains t where "populate_subsystem E sname a info s = Inr (Some a, t)"
    and "populated E sname a info frus sub s t"
proof -
  let ?y = "yaml_handle s" and ?fans = "all_fans frus"
  let ?n = "nat (yaml_get_fan_fru_count E ?y sname)"
  from desc have d: "yaml_get_fan_info E ?y sname = Some info"
    "described_frus E ?y sname ?n = Some frus" "number_fan_frus info = ?n"
    by (simp_all add: described_def)
  have n: "0 < yaml_get_fan_fru_count E ?y sname"
    using d(2) desc(2) by (cases "0 < yaml_get_fan_fru_count E ?y sname") (auto simp: described_frus_def)
  have name: "sub_name sub = sname" using registered_subsystem [OF ok a] sub(1) by auto
  define x where "x = sub\<lparr>sub_multiplier := fan_speed_multiplier info,
      sub_numerator := fan_speed_numerator info, sub_valid := True\<rparr>"
  define s3 where "s3 = s\<lparr>subsystem_heap := (subsystem_heap s)(a \<mapsto> x)\<rparr>"
  have "same_registry s s3"
    using sub(1) by (auto simp: s3_def x_def same_subsystem_def intro!: same_registry_subsystem_update)
  then have s3_ok: "registry_ok s3" using ok by (rule same_registry_ok)
  obtain t nodes where t: "add_all_fans E sname a ?n (length ?fans) s3 = Inr t"
    "registry_ok t" "subsystem_data t = subsystem_data s3" "yaml_handle t = yaml_handle s3"
    "fst ` set (fan_data t) = set (fan_names sname ?fans) \<union> fst ` set (fan_data s3)"
    "subsystem_heap t = (subsystem_heap s3)(a \<mapsto> x\<lparr>subsystem_fans := nodes\<rparr>)"
    "\<forall>fa f. fan_heap s3 fa = Some f \<longrightarrow> fan_heap t fa = Some f"
    "list_all2 (node_of_fan t sname) (rev ?fans) nodes"
    "idl_seqno t = idl_seqno s3" "cur_hw_set t = cur_hw_set s3"
    "idl_db t = (if commit_ok E (bus s3) (idl_db s3) (rows_for sname ?fans (idl_db s3))
      then rows_for sname ?fans (idl_db s3) else idl_db s3)"
    using add_all_fans_ok [OF s3_ok _ _ _ _ names(1), of a x E ?n] a sub(2) d(2) names(2)
    by (auto simp: s3_def x_def)
  obtain label v where setting: "speed_setting info
      (effective_speed (sub_fan_speed_override sub) (sub_fan_speed sub)) = (label, v)" by fastforce
  obtain u where u: "fand_set_fanspeed E a t = Inr u" "fan_heap u = fan_heap t"
    "subsystem_heap u = (subsystem_heap s)(a \<mapsto> x\<lparr>subsystem_fans := nodes,
       sub_speed := effective_speed (sub_fan_speed_override sub) (sub_fan_speed sub)\<rparr>)"
    using fand_set_fanspeed_eq [of t a "x\<lparr>subsystem_fans := nodes\<rparr>" E info frus] d name setting t(6)
    by (auto simp: t(4) s3_def x_def)
  from phys.set_fanspeed_same [OF u(1)] have same: "same_registry t u" "same_outside t u" by auto
  show thesis
  proof (rule that)
    show "populate_subsystem E sname a info s = Inr (Some a, u)"
      using n sub(1) t(1) u(1) by (simp add: populate_subsystem_def Let_def count_fans_eq [OF d(2)]
          x_def [symmetric] s3_def [symmetric] store_sub_def)
    have "list_all2 (node_of_fan u sname) (rev ?fans) nodes"
      using t(8) by (simp add: node_of_fan_def [abs_def] u(2))
    then show "populated E sname a info frus sub s u"
      using same_registry_ok [OF same(1) t(2)] same t(3-5,7,9-11) u(2,3)
      by (auto simp: populated_def same_registry_def same_outside_def s3_def x_def)
  qed
qed

text \<open>An empty subsystem at a fresh address, under a name that is not registered yet.\<close>

definition register_subsystem :: "ovsrec_subsystem \<Rightarrow> ('y, 'w) fand \<Rightarrow> ('y, 'w) fand" where
  "register_subsystem cfg s = s\<lparr>next_addr := Suc (next_addr s),
     subsystem_heap := (subsystem_heap s)(next_addr s \<mapsto> new_subsystem cfg),
     subsystem_data := (cfg_name cfg, next_addr s) # subsystem_data s\<rparr>"

lemma new_subsystem_simps [simp]:
  "sub_name (new_subsystem cfg) = cfg_name cfg" "subsystem_fans (new_subsystem cfg) = []"
  "sub_valid (new_subsystem cfg) = False" "sub_marked (new_subsystem cfg) = False"
  "sub_fan_speed (new_subsystem cfg) = FAND_SPEED_NORMAL"
  by (simp_all add: new_subsystem_def)

lemma register_subsystem_ok:
  assumes ok: "registry_ok s" and new: "cfg_name cfg \<notin> fst ` set (subsystem_data s)"
  shows "registry_ok (register_subsystem cfg s)"
proof (rule registry_okI)
  let ?t = "register_subsystem cfg s"
  have fresh: "subsystem_heap s (next_addr s) = None" by (rule registry_fresh(1) [OF ok])
  show "distinct (map fst (subsystem_data ?t))" "distinct (map fst (fan_data ?t))"
    using registry_ok_D(1,2) [OF ok] new by (simp_all add: register_subsystem_def)
  show "subsystem_ok ?t node" if node: "node \<in> set (subsystem_data ?t)" for node
  proof (cases "node = (cfg_name cfg, next_addr s)")
    case True
    then show ?thesis by (simp add: subsystem_ok_def register_subsystem_def)
  next
    case False
    with node have "node \<in> set (subsystem_data s)" by (simp add: register_subsystem_def)
    from registry_ok_D(3) [OF ok this] fresh show ?thesis
      by (auto simp: subsystem_ok_def register_subsystem_def)
  qed
  show "fan_ok ?t node" if node: "node \<in> set (fan_data ?t)" for node
  proof -
    from node have "node \<in> set (fan_data s)" by (simp add: register_subsystem_def)
    from registry_ok_D(4) [OF ok this] obtain f x where f: "fan_heap s (snd node) = Some f"
      "fan_name f = fst node" "fan_subsystem f \<in> snd ` set (subsystem_data s)"
      "subsystem_heap s (fan_subsystem f) = Some x" "node \<in> set (subsystem_fans x)"
      unfolding fan_ok_def by blast
    moreover have "fan_subsystem f \<noteq> next_addr s" using f(4) fresh by auto
    ultimately show ?thesis by (simp add: fan_ok_def register_subsystem_def)
  qed
  show "dom (subsystem_heap ?t) = snd ` set (subsystem_data ?t)"
    "dom (fan_heap ?t) = snd ` set (fan_data ?t)"
    using registry_ok_D(5,6) [OF ok] by (simp_all add: register_subsystem_def)
  show "b < next_addr ?t" if "b \<in> dom (subsystem_heap ?t) \<union> dom (fan_heap ?t)" for b
    using that registry_ok_D(7,8) [OF ok, of b]
    by (simp add: register_subsystem_def less_Suc_eq del: domIff) blast
qed

text \<open>
  The three outcomes of \<open>add_subsystem\<close>: no description or no FRU (the subsystem stays,
  empty and not valid), or a populated subsystem.
\<close>

lemma add_subsystem_failed:
  assumes ok: "registry_ok s" and new: "cfg_name cfg \<notin> fst ` set (subsystem_data s)"
    and load: "load_description E cfg (yaml_handle s) = (None, y)"
  shows "add_subsystem E cfg s = Inr (None, (register_subsystem cfg s)\<lparr>yaml_handle := y\<rparr>)"
    and "registry_ok ((register_subsystem cfg s)\<lparr>yaml_handle := y\<rparr>)"
  using register_subsystem_ok [OF ok new] load
  by (simp_all add: add_subsystem_def register_subsystem_def shash_add_def Let_def)

lemma add_subsystem_no_frus:
  assumes ok: "registry_ok s" and new: "cfg_name cfg \<notin> fst ` set (subsystem_data s)"
    and load: "load_description E cfg (yaml_handle s) = (Some info, y)"
    and none: "yaml_get_fan_fru_count E y (cfg_name cfg) \<le> 0"
    and t: "t = (register_subsystem cfg s)\<lparr>yaml_handle := y,
      subsystem_heap := (subsystem_heap s)(next_addr s \<mapsto> (new_subsystem cfg)
        \<lparr>sub_multiplier := fan_speed_multiplier info, sub_numerator := fan_speed_numerator info\<rparr>)\<rparr>"
  shows "add_subsystem E cfg s = Inr (None, t)" and "registry_ok t"
proof -
  let ?r = "(register_subsystem cfg s)\<lparr>yaml_handle := y\<rparr>"
  show "add_subsystem E cfg s = Inr (None, t)"
    using load none
    by (simp add: t add_subsystem_def register_subsystem_def shash_add_def Let_def
        populate_subsystem_def store_sub_def)
  have "same_registry ?r (?r\<lparr>subsystem_heap := (subsystem_heap ?r)(next_addr s \<mapsto> (new_subsystem cfg)
        \<lparr>sub_multiplier := fan_speed_multiplier info, sub_numerator := fan_speed_numerator info\<rparr>)\<rparr>)"
    by (rule same_registry_subsystem_update [where x = "new_subsystem cfg"])
      (simp_all add: register_subsystem_def same_subsystem_def)
  then show "registry_ok t"
    using same_registry_ok register_subsystem_ok [OF ok new]
    by (fastforce simp: t register_subsystem_def)
qed

lemma add_subsystem_populated:
  assumes ok: "registry_ok s" and new: "cfg_name cfg \<notin> fst ` set (subsystem_data s)"
    and load: "load_description E cfg (yaml_handle s) = (Some info, y)"
    and desc: "described E y (cfg_name cfg) info frus" "frus \<noteq> []"
    and names: "distinct (fan_names (cfg_name cfg) (all_fans frus))"
      "set (fan_names (cfg_name cfg) (all_fans frus)) \<inter> fst ` set (fan_data s) = {}"
  obtains t where "add_subsystem E cfg s = Inr (Some (next_addr s), t)"
    and "populated E (cfg_name cfg) (next_addr s) info frus (new_subsystem cfg)
      ((register_subsystem cfg s)\<lparr>yaml_handle := y\<rparr>) t"
proof -
  let ?r = "(register_subsystem cfg s)\<lparr>yaml_handle := y\<rparr>"
  obtain t where t: "populate_subsystem E (cfg_name cfg) (next_addr s) info ?r = Inr (Some (next_addr s), t)"
    "populated E (cfg_name cfg) (next_addr s) info frus (new_subsystem cfg) ?r t"
  proof (rule populate_subsystem_ok [where sub = "new_subsystem cfg" and s = ?r and E = E
        and a = "next_addr s" and sname = "cfg_name cfg" and info = info and frus = frus])
    show "registry_ok ?r" using register_subsystem_ok [OF ok new] by simp
    show "set (fan_names (cfg_name cfg) (all_fans frus)) \<inter> fst ` set (fan_data ?r) = {}"
      using names(2) by (simp add: register_subsystem_def)
  qed (use desc names(1) in \<open>simp_all add: register_subsystem_def\<close>)
  have "add_subsystem E cfg s = populate_subsystem E (cfg_name cfg) (next_addr s) info ?r"
    using load by (simp add: add_subsystem_def register_subsystem_def shash_add_def Let_def)
  with t that show thesis by simp
qed

section \<open>Properties\<close>

text \<open>C11: Adding a subsystem. When the library loads a consistent description with at least one
  FRU, and the full names of its fans are new and distinct, \<open>add_subsystem\<close> does not fault (in
  particular the array of rows is never overrun), answers the new subsystem, and keeps the
  registry well formed; the subsystem is valid, holds the scaling factors of its description,
  and its fans, like the global table's new entries, are exactly those of the description. The
  database view sent to the server is the one that \<open>rows_for\<close> describes.\<close>

theorem add_subsystem_registers:
  assumes "registry_ok s" and "cfg_name cfg \<notin> fst ` set (subsystem_data s)"
    and "load_description E cfg (yaml_handle s) = (Some info, y)"
    and "described E y (cfg_name cfg) info frus" and "frus \<noteq> []"
    and "names = map (\<lambda>fan. full_fan_name (cfg_name cfg) (yf_name fan)) (all_fans frus)"
    and "distinct names" and "set names \<inter> fst ` set (fan_data s) = {}"
  shows "\<exists>t sub. add_subsystem E cfg s = Inr (Some (next_addr s), t) \<and> registry_ok t \<and>
    subsystem_data t = (cfg_name cfg, next_addr s) # subsystem_data s \<and>
    subsystem_heap t (next_addr s) = Some sub \<and> sub_valid sub \<and>
    sub_multiplier sub = fan_speed_multiplier info \<and> sub_numerator sub = fan_speed_numerator info \<and>
    map fst (subsystem_fans sub) = rev names \<and>
    fst ` set (fan_data t) = set names \<union> fst ` set (fan_data s) \<and>
    idl_db t = (if commit_ok E (bus s) (idl_db s) (rows_for (cfg_name cfg) (all_fans frus) (idl_db s))
      then rows_for (cfg_name cfg) (all_fans frus) (idl_db s) else idl_db s)"
proof -
  let ?r = "(register_subsystem cfg s)\<lparr>yaml_handle := y\<rparr>"
  have names: "names = fan_names (cfg_name cfg) (all_fans frus)" by (simp add: assms(6) fan_names_def)
  obtain t where t: "add_subsystem E cfg s = Inr (Some (next_addr s), t)"
    and pop: "populated E (cfg_name cfg) (next_addr s) info frus (new_subsystem cfg) ?r t"
    by (rule add_subsystem_populated [OF assms(1-5) assms(7,8) [unfolded names]])
  from pop obtain nodes sub where nodes: "list_all2 (node_of_fan t (cfg_name cfg)) (rev (all_fans frus)) nodes"
    and sub: "subsystem_heap t (next_addr s) = Some sub" "sub_valid sub" "subsystem_fans sub = nodes"
      "sub_multiplier sub = fan_speed_multiplier info" "sub_numerator sub = fan_speed_numerator info"
    by (auto simp: populated_def)
  have "map fst nodes = rev names"
    using node_of_fan_names [OF nodes] by (simp add: names fan_names_def rev_map)
  with t pop sub show ?thesis
    by (auto simp: populated_def register_subsystem_def names)
qed

theorem add_subsystem_registers_witness:
  "\<exists>t sub. add_subsystem bench bench_cfg (fand_init bench bench_bus bench_db) = Inr (Some 1, t) \<and>
     registry_ok t \<and> subsystem_heap t 1 = Some sub \<and>
     map fst (subsystem_fans sub) = [''base-2L'', ''base-1R'', ''base-1L'']"
proof -
  let ?s = "fand_init bench bench_bus bench_db"
  let ?names = "map (\<lambda>fan. full_fan_name (cfg_name bench_cfg) (yf_name fan)) (all_fans bench_frus)"
  have names: "?names = [''base-1L'', ''base-1R'', ''base-2L'']"
    by (simp add: bench_cfg_def bench_frus_def full_fan_name_def)
  have reg: "registry_ok ?s" by (simp add: registry_ok_def fand_init_def init_subsystems_def)
  have new: "cfg_name bench_cfg \<notin> fst ` set (subsystem_data ?s)"
    and fresh: "set ?names \<inter> fst ` set (fan_data ?s) = {}" and next_addr: "next_addr ?s = 1"
    by (simp_all add: fand_init_def init_subsystems_def)
  have load: "load_description bench bench_cfg (yaml_handle ?s) = (Some bench_info, [''base''])"
    by (simp add: load_description_def bench_cfg_def fand_init_def init_subsystems_def)
  have desc: "described bench [''base''] (cfg_name bench_cfg) bench_info bench_frus" "bench_frus \<noteq> []"
    by (simp_all add: described_def bench_cfg_def bench_frus_def)
  have "distinct ?names" unfolding names by simp
  from add_subsystem_registers [OF reg new load desc refl this fresh]
  obtain t sub where "add_subsystem bench bench_cfg ?s = Inr (Some 1, t)" "registry_ok t"
    "subsystem_heap t 1 = Some sub" "map fst (subsystem_fans sub) = rev ?names"
    unfolding next_addr by blast
  then show ?thesis unfolding names by auto
qed

end
