(* ===== verification/Registry_Sweep.thy ===== *)
theory Registry_Sweep
  imports Registry_Inv
begin

text \<open>
  Mark and sweep keeps the registry invariant: unmarking touches one member, and sweeping
  removes the unmarked subsystems with all their fans, from both tables and from the heap,
  and nothing else.
\<close>

section \<open>Unmarking\<close>

definition unmark_all :: "(addr \<rightharpoonup> locl_subsystem) \<Rightarrow> addr set \<Rightarrow> addr \<rightharpoonup> locl_subsystem" where
  "unmark_all heap as = (\<lambda>a. if a \<in> as then map_option (sub_marked_update (\<lambda>_. False)) (heap a)
     else heap a)"

lemma unmark_loop:
  assumes "\<forall>node \<in> set nodes. subsystem_heap s (snd node) \<noteq> None"
  shows "for_each unmark_subsystem nodes s =
    Inr (s\<lparr>subsystem_heap := unmark_all (subsystem_heap s) (snd ` set nodes)\<rparr>)"
  using assms
proof (induction nodes arbitrary: s)
  case Nil
  then show ?case by (simp add: unmark_all_def)
next
  case (Cons node nodes)
  then obtain x where x: "subsystem_heap s (snd node) = Some x" by auto
  let ?t = "store_sub (snd node) (x\<lparr>sub_marked := False\<rparr>) s"
  have "for_each unmark_subsystem nodes ?t =
      Inr (?t\<lparr>subsystem_heap := unmark_all (subsystem_heap ?t) (snd ` set nodes)\<rparr>)"
    using Cons by (intro Cons.IH) (auto simp: store_sub_def)
  moreover have "unmark_all (subsystem_heap ?t) (snd ` set nodes) =
      unmark_all (subsystem_heap s) (snd ` set (node # nodes))"
    using x by (auto simp: unmark_all_def store_sub_def fun_eq_iff)
  ultimately show ?case
    using x by (simp add: unmark_subsystem_def [of node] store_sub_def)
qed

lemma fand_unmark_subsystems_eq:
  assumes "registry_ok s"
  shows "fand_unmark_subsystems E s =
    Inr (s\<lparr>subsystem_heap := (\<lambda>a. map_option (sub_marked_update (\<lambda>_. False)) (subsystem_heap s a))\<rparr>)"
proof -
  have dom: "snd ` set (subsystem_data s) = dom (subsystem_heap s)"
    using registry_ok_D(5) [OF assms] by simp
  have "unmark_all (subsystem_heap s) (dom (subsystem_heap s)) =
      (\<lambda>a. map_option (sub_marked_update (\<lambda>_. False)) (subsystem_heap s a))"
    by (auto simp: unmark_all_def fun_eq_iff domIff)
  moreover have "\<forall>node \<in> set (subsystem_data s). subsystem_heap s (snd node) \<noteq> None"
    using dom by blast
  ultimately show ?thesis
    using unmark_loop [of "shash_nodes (hash_bucket E) (subsystem_data s)" s] dom
    by (simp add: fand_unmark_subsystems_def)
qed

lemma unmark_same_registry:
  "same_registry s (s\<lparr>subsystem_heap :=
     (\<lambda>a. map_option (sub_marked_update (\<lambda>_. False)) (subsystem_heap s a))\<rparr>)"
  by (auto simp: same_registry_def same_subsystem_def rel_option_iff option.rel_refl
      split: option.splits)

section \<open>Removing one fan\<close>

lemma remove_fan_ok:
  assumes ok: "registry_ok s" and a: "(sname, a) \<in> set (subsystem_data s)"
    and sub: "subsystem_heap s a = Some sub" and node: "node \<in> set (subsystem_fans sub)"
  obtains t where "remove_fan E a node s = Inr t" and "registry_ok t"
    and "t = s\<lparr>fan_data := remove1 node (fan_data s),
      subsystem_heap := (subsystem_heap s)
        (a \<mapsto> sub\<lparr>subsystem_fans := remove1 node (subsystem_fans sub)\<rparr>),
      fan_heap := (fan_heap s)(snd node := None)\<rparr>"
proof -
  obtain n fa where n: "node = (n, fa)" by fastforce
  from registry_ok_D(3) [OF ok a] sub have fans: "distinct (map fst (subsystem_fans sub))"
    "set (subsystem_fans sub) \<subseteq> set (fan_data s)"
    "\<And>m fb. (m, fb) \<in> set (subsystem_fans sub) \<Longrightarrow>
       \<exists>f. fan_heap s fb = Some f \<and> fan_subsystem f = a"
    by (auto simp: subsystem_ok_def)
  have glob: "(n, fa) \<in> set (fan_data s)" using fans(2) node n by auto
  obtain f where f: "fan_heap s fa = Some f" "fan_name f = n"
    by (rule registered_fan [OF ok glob]) blast
  have dist: "distinct (map fst (fan_data s))" by (rule registry_ok_D(2) [OF ok])
  then have dist': "distinct (fan_data s)" "distinct (subsystem_fans sub)"
    using fans(1) by (simp_all add: distinct_map)
  have other: "fb \<noteq> fa" if "(m, fb) \<in> set (fan_data s)" "(m, fb) \<noteq> node" for m fb
    using fan_addr_inj [OF ok glob, of m] that n by auto
  define t where "t = s\<lparr>fan_data := remove1 node (fan_data s),
      subsystem_heap := (subsystem_heap s)
        (a \<mapsto> sub\<lparr>subsystem_fans := remove1 node (subsystem_fans sub)\<rparr>),
      fan_heap := (fan_heap s)(fa := None)\<rparr>"
  have run: "remove_fan E a node s = Inr t"
    using f sub shash_find_unique [OF dist glob, of "hash_bucket E"]
    by (simp add: remove_fan_def t_def n shash_delete_def)
  have "registry_ok t"
  proof (rule registry_okI)
    show "distinct (map fst (subsystem_data t))" "distinct (map fst (fan_data t))"
      using registry_ok_D(1) [OF ok] dist by (simp_all add: t_def distinct_map_remove1)
  next
    fix z assume z: "z \<in> set (subsystem_data t)"
    then have "z \<in> set (subsystem_data s)" by (simp add: t_def)
    from registry_ok_D(3) [OF ok this] obtain x where x: "subsystem_heap s (snd z) = Some x"
      "sub_name x = fst z" "distinct (map fst (subsystem_fans x))"
      "set (subsystem_fans x) \<subseteq> set (fan_data s)"
      "\<And>m fb. (m, fb) \<in> set (subsystem_fans x) \<Longrightarrow>
         \<exists>f. fan_heap s fb = Some f \<and> fan_subsystem f = snd z"
      unfolding subsystem_ok_def by blast
    show "subsystem_ok t z"
    proof (cases "snd z = a")
      case True
      with x sub fans dist' other show ?thesis
        by (fastforce simp: subsystem_ok_def t_def distinct_map_remove1)
    next
      case False
      have "node \<notin> set (subsystem_fans x)"
        using x(5) [of n fa] fans(3) [of n fa] node n False by auto
      then have "set (subsystem_fans x) \<subseteq> set (fan_data t)"
        using x(4) dist'(1) by (auto simp: t_def)
      moreover have "\<exists>f. fan_heap t fb = Some f \<and> fan_subsystem f = snd z"
        if "(m, fb) \<in> set (subsystem_fans x)" for m fb
        using x(5) [OF that] other [of m fb] x(4) that \<open>node \<notin> _\<close> by (auto simp: t_def)
      moreover have "subsystem_heap t (snd z) = Some x" using x(1) False by (simp add: t_def)
      ultimately show ?thesis using x(2,3) unfolding subsystem_ok_def by blast
    qed
  next
    fix z assume "z \<in> set (fan_data t)"
    then have z: "z \<in> set (fan_data s)" "z \<noteq> node" using dist'(1) by (auto simp: t_def)
    from registry_ok_D(4) [OF ok z(1)] obtain g x where g: "fan_heap s (snd z) = Some g"
      "fan_name g = fst z" "fan_subsystem g \<in> snd ` set (subsystem_data s)"
      "subsystem_heap s (fan_subsystem g) = Some x" "z \<in> set (subsystem_fans x)"
      unfolding fan_ok_def by blast
    moreover have "snd z \<noteq> fa" using other [of "fst z" "snd z"] z by simp
    ultimately show "fan_ok t z"
      using sub z(2) dist'(2) by (auto simp: fan_ok_def t_def)
  next
    show "dom (subsystem_heap t) = snd ` set (subsystem_data t)"
      using registry_ok_D(5) [OF ok] sub by (auto simp: t_def)
    have "snd ` (set (fan_data s) - {node}) = snd ` set (fan_data s) - {fa}"
      using other n glob by force
    then show "dom (fan_heap t) = snd ` set (fan_data t)"
      using registry_ok_D(6) [OF ok] dist'(1) by (simp add: t_def)
    show "b < next_addr t" if "b \<in> dom (subsystem_heap t) \<union> dom (fan_heap t)" for b
      using that registry_ok_D(7,8) [OF ok, of b] sub by (auto simp: t_def split: if_splits)
  qed
  with run that show thesis by (simp add: t_def n)
qed

section \<open>What a sweep leaves\<close>

text \<open>
  The state without the subsystems at the addresses \<open>D\<close> and without their fans: the
  specification of the sweep.
\<close>

definition owned_by :: "addr set \<Rightarrow> ('y, 'w) fand \<Rightarrow> addr \<Rightarrow> bool" where
  "owned_by D s fa \<longleftrightarrow> (\<exists>f. fan_heap s fa = Some f \<and> fan_subsystem f \<in> D)"

definition purge :: "addr set \<Rightarrow> ('y, 'w) fand \<Rightarrow> ('y, 'w) fand" where
  "purge D s = s\<lparr>
     subsystem_data := filter (\<lambda>node. snd node \<notin> D) (subsystem_data s),
     fan_data := filter (\<lambda>node. \<not> owned_by D s (snd node)) (fan_data s),
     subsystem_heap := subsystem_heap s |` (- D),
     fan_heap := fan_heap s |` {fa. \<not> owned_by D s fa}\<rparr>"

lemma purge_empty [simp]: "purge {} s = s"
  by (cases s) (simp add: purge_def owned_by_def)

lemma purge_purge: "purge A (purge B s) = purge (A \<union> B) s"
proof -
  have "owned_by A (purge B s) fa \<longleftrightarrow> owned_by A s fa \<and> \<not> owned_by B s fa" for fa
    by (auto simp: owned_by_def purge_def restrict_map_def)
  moreover have "owned_by (A \<union> B) s fa \<longleftrightarrow> owned_by A s fa \<or> owned_by B s fa" for fa
    by (auto simp: owned_by_def)
  ultimately have "\<not> owned_by (A \<union> B) s fa \<longleftrightarrow> \<not> owned_by A (purge B s) fa \<and> \<not> owned_by B s fa" for fa
    by auto
  then show ?thesis
    by (auto simp: purge_def conj_commute restrict_map_def fun_eq_iff intro!: filter_cong)
qed

lemma owned_nodes:
  assumes "registry_ok s" and "(sname, a) \<in> set (subsystem_data s)"
    and "subsystem_heap s a = Some sub"
  shows "node \<in> set (subsystem_fans sub) \<longleftrightarrow> node \<in> set (fan_data s) \<and> owned_by {a} s (snd node)"
proof
  assume "node \<in> set (subsystem_fans sub)"
  with registry_ok_D(3) [OF assms(1,2)] assms(3) show "node \<in> set (fan_data s) \<and> owned_by {a} s (snd node)"
    by (cases node) (auto simp: subsystem_ok_def owned_by_def)
next
  assume "node \<in> set (fan_data s) \<and> owned_by {a} s (snd node)"
  with registry_ok_D(4) [OF assms(1), of node] assms(3) show "node \<in> set (subsystem_fans sub)"
    by (auto simp: fan_ok_def owned_by_def)
qed

lemma purge_ok:
  assumes ok: "registry_ok s"
  shows "registry_ok (purge D s)"
proof (rule registry_okI)
  show "distinct (map fst (subsystem_data (purge D s)))" "distinct (map fst (fan_data (purge D s)))"
    using registry_ok_D(1,2) [OF ok] by (simp_all add: purge_def distinct_map_filter)
next
  fix z assume "z \<in> set (subsystem_data (purge D s))"
  then have z: "z \<in> set (subsystem_data s)" "snd z \<notin> D" by (simp_all add: purge_def)
  from registry_ok_D(3) [OF ok z(1)] z(2) show "subsystem_ok (purge D s) z"
    by (fastforce simp: subsystem_ok_def purge_def owned_by_def restrict_map_def)
next
  fix z assume "z \<in> set (fan_data (purge D s))"
  then have z: "z \<in> set (fan_data s)" "\<not> owned_by D s (snd z)" by (simp_all add: purge_def)
  from registry_ok_D(4) [OF ok z(1)] obtain f x where f: "fan_heap s (snd z) = Some f"
    "fan_name f = fst z" "fan_subsystem f \<in> snd ` set (subsystem_data s)"
    "subsystem_heap s (fan_subsystem f) = Some x" "z \<in> set (subsystem_fans x)"
    unfolding fan_ok_def by blast
  have "fan_subsystem f \<notin> D" using z(2) f(1) by (auto simp: owned_by_def)
  with f z(2) show "fan_ok (purge D s) z"
    by (auto simp: fan_ok_def purge_def restrict_map_def)
next
  show "dom (subsystem_heap (purge D s)) = snd ` set (subsystem_data (purge D s))"
    using registry_ok_D(5) [OF ok] by (auto simp: purge_def)
  show "dom (fan_heap (purge D s)) = snd ` set (fan_data (purge D s))"
    using registry_ok_D(6) [OF ok] by (auto simp: purge_def)
  show "b < next_addr (purge D s)"
    if "b \<in> dom (subsystem_heap (purge D s)) \<union> dom (fan_heap (purge D s))" for b
  proof -
    from that have "b \<in> dom (subsystem_heap s) \<or> b \<in> dom (fan_heap s)" by (auto simp: purge_def)
    then show ?thesis using registry_ok_D(7,8) [OF ok, of b] by (auto simp: purge_def simp del: domIff)
  qed
qed

section \<open>The sweep\<close>

lemma remove_fans_ok:
  assumes "registry_ok s" and "(sname, a) \<in> set (subsystem_data s)"
    and "subsystem_heap s a = Some sub"
    and "set nodes \<subseteq> set (subsystem_fans sub)" and "distinct nodes"
  shows "for_each (remove_fan E a) nodes s = Inr (s\<lparr>
      fan_data := filter (\<lambda>n. n \<notin> set nodes) (fan_data s),
      subsystem_heap := (subsystem_heap s)
        (a \<mapsto> sub\<lparr>subsystem_fans := filter (\<lambda>n. n \<notin> set nodes) (subsystem_fans sub)\<rparr>),
      fan_heap := fan_heap s |` (- snd ` set nodes)\<rparr>)"
  using assms
proof (induction nodes arbitrary: s sub)
  case Nil
  then show ?case by (cases s) (auto simp: fun_upd_idem)
next
  case (Cons node nodes)
  have "node \<in> set (subsystem_fans sub)" using Cons.prems(4) by simp
  from remove_fan_ok [OF Cons.prems(1-3) this, of E] obtain t where
    t: "remove_fan E a node s = Inr t" "registry_ok t" and t_eq: "t = s\<lparr>
      fan_data := remove1 node (fan_data s), subsystem_heap := (subsystem_heap s)
        (a \<mapsto> sub\<lparr>subsystem_fans := remove1 node (subsystem_fans sub)\<rparr>),
      fan_heap := (fan_heap s)(snd node := None)\<rparr>" by blast
  have dist: "distinct (fan_data s)" "distinct (subsystem_fans sub)"
    using registry_ok_D(2) [OF Cons.prems(1)] registry_ok_D(3) [OF Cons.prems(1,2)] Cons.prems(3)
    by (auto simp: subsystem_ok_def distinct_map)
  let ?sub = "sub\<lparr>subsystem_fans := remove1 node (subsystem_fans sub)\<rparr>"
  have "for_each (remove_fan E a) nodes t = Inr (t\<lparr>
      fan_data := filter (\<lambda>n. n \<notin> set nodes) (fan_data t),
      subsystem_heap := (subsystem_heap t)
        (a \<mapsto> ?sub\<lparr>subsystem_fans := filter (\<lambda>n. n \<notin> set nodes) (subsystem_fans ?sub)\<rparr>),
      fan_heap := fan_heap t |` (- snd ` set nodes)\<rparr>)"
    using Cons.prems(2,4,5) dist(2) by (intro Cons.IH [OF t(2)]) (auto simp: t_eq)
  moreover have "filter (\<lambda>n. n \<notin> set nodes) (remove1 node xs) = filter (\<lambda>n. n \<notin> set (node # nodes)) xs"
    if "distinct xs" for xs
    by (auto simp: distinct_remove1_removeAll [OF that] removeAll_filter_not_eq intro!: filter_cong)
  note filters = this [OF dist(1)] this [OF dist(2)]
  moreover have "fan_heap t |` (- snd ` set nodes) = fan_heap s |` (- snd ` set (node # nodes))"
    unfolding t_eq by (auto simp: restrict_map_def fun_eq_iff)
  ultimately show ?case
    by (simp add: t(1) del: list.set) (cases s, simp add: t_eq fun_eq_iff del: list.set)
qed

lemma sweep_unmarked_eq:
  assumes ok: "registry_ok s" and a: "(n, a) \<in> set (subsystem_data s)"
    and x: "subsystem_heap s a = Some x" and unmarked: "\<not> sub_marked x"
  shows "sweep_subsystem E (n, a) s = Inr (purge {a} s)"
proof -
  have dist: "distinct (subsystem_fans x)" "distinct (subsystem_data s)"
    using registry_ok_D(1) [OF ok] registry_ok_D(3) [OF ok a] x
    by (auto simp: subsystem_ok_def distinct_map)
  note owned = owned_nodes [OF ok a x]
  have "filter (\<lambda>z. z \<notin> set (subsystem_fans x)) (fan_data s) =
      filter (\<lambda>z. \<not> owned_by {a} s (snd z)) (fan_data s)"
    using owned by (intro filter_cong) auto
  moreover have "remove1 (n, a) (subsystem_data s) = filter (\<lambda>z. snd z \<notin> {a}) (subsystem_data s)"
    unfolding distinct_remove1_removeAll [OF dist(2)] removeAll_filter_not_eq
  proof (rule filter_cong [OF refl])
    fix z assume "z \<in> set (subsystem_data s)"
    then show "(n, a) \<noteq> z \<longleftrightarrow> snd z \<notin> {a}"
      using subsystem_addr_inj [OF ok a, of "fst z"] by (cases z) auto
  qed
  moreover have "(subsystem_heap s)(a := None) = subsystem_heap s |` (- {a})"
    by (auto simp: restrict_map_def fun_eq_iff)
  moreover have "fan_heap s |` (- snd ` set (subsystem_fans x)) = fan_heap s |` {fa. \<not> owned_by {a} s fa}"
  proof
    fix fa
    have "fa \<in> snd ` set (subsystem_fans x) \<longleftrightarrow> owned_by {a} s fa" if "fa \<in> dom (fan_heap s)"
      using that owned unfolding registry_ok_D(6) [OF ok] by force
    then show "(fan_heap s |` (- snd ` set (subsystem_fans x))) fa =
        (fan_heap s |` {fa. \<not> owned_by {a} s fa}) fa"
      by (cases "fa \<in> dom (fan_heap s)") (auto simp: restrict_map_def)
  qed
  ultimately show ?thesis
    using remove_fans_ok [OF ok a x, of "shash_nodes (hash_bucket E) (subsystem_fans x)" E]
      x unmarked dist(1)
    by (cases s) (simp add: sweep_subsystem_def purge_def shash_delete_def)
qed

definition unmarked :: "('y, 'w) fand \<Rightarrow> addr set" where
  "unmarked s = {a. \<exists>x. subsystem_heap s a = Some x \<and> \<not> sub_marked x}"

lemma sweep_loop:
  assumes ok: "registry_ok s" and "set nodes \<subseteq> set (subsystem_data s)"
    and "distinct (map snd nodes)" and "D \<inter> snd ` set nodes = {}"
  shows "for_each (sweep_subsystem E) nodes (purge D s) =
    Inr (purge (D \<union> (snd ` set nodes \<inter> unmarked s)) s)"
  using assms(2-)
proof (induction nodes arbitrary: D)
  case (Cons node nodes)
  obtain n a where node: "node = (n, a)" by fastforce
  have a: "(n, a) \<in> set (subsystem_data (purge D s))" and na: "(n, a) \<in> set (subsystem_data s)"
    using Cons.prems by (auto simp: node purge_def)
  obtain x where x: "subsystem_heap s a = Some x"
    using registered_subsystem [OF ok na] .
  then have px: "subsystem_heap (purge D s) a = Some x"
    using Cons.prems(3) by (auto simp: purge_def node restrict_map_def)
  show ?case
  proof (cases "sub_marked x")
    case True
    then have "a \<notin> unmarked s" using x by (simp add: unmarked_def)
    with True px Cons show ?thesis by (auto simp: node sweep_subsystem_def)
  next
    case False
    then have in_a: "a \<in> unmarked s" using x by (simp add: unmarked_def)
    have "sweep_subsystem E (n, a) (purge D s) = Inr (purge ({a} \<union> D) s)"
      using sweep_unmarked_eq [OF purge_ok [OF ok] a px False] by (simp add: purge_purge)
    moreover have "for_each (sweep_subsystem E) nodes (purge ({a} \<union> D) s) =
        Inr (purge (({a} \<union> D) \<union> (snd ` set nodes \<inter> unmarked s)) s)"
      using Cons.prems by (intro Cons.IH) (auto simp: node)
    moreover have "({a} \<union> D) \<union> (snd ` set nodes \<inter> unmarked s) =
        D \<union> (snd ` set (node # nodes) \<inter> unmarked s)"
      using in_a by (auto simp: node)
    ultimately show ?thesis by (simp add: node)
  qed
qed simp

lemma distinct_subsystem_addrs:
  assumes "registry_ok s" shows "distinct (map snd (subsystem_data s))"
proof -
  have "inj_on snd (set (subsystem_data s))"
    using subsystem_addr_inj [OF assms] by (auto simp: inj_on_def)
  moreover have "distinct (subsystem_data s)"
    using registry_ok_D(1) [OF assms] by (simp add: distinct_map)
  ultimately show ?thesis by (simp add: distinct_map)
qed

lemma fand_remove_unmarked_subsystems_eq:
  assumes "registry_ok s"
  shows "fand_remove_unmarked_subsystems E s = Inr (purge (unmarked s) s)"
proof -
  have "unmarked s \<subseteq> snd ` set (subsystem_data s)"
    using registry_ok_D(5) [OF assms] by (auto simp: unmarked_def)
  then have "snd ` set (subsystem_data s) \<inter> unmarked s = unmarked s" by auto
  with sweep_loop [OF assms, of "shash_nodes (hash_bucket E) (subsystem_data s)" "{}" E]
    distinct_subsystem_addrs [OF assms]
  show ?thesis by (simp add: fand_remove_unmarked_subsystems_def)
qed

section \<open>Properties\<close>

text \<open>C10: Sweeping. From a well-formed registry, \<open>fand_remove_unmarked_subsystems\<close> does not
  fault, whatever the order of the hash tables: it takes out exactly the subsystems that are not
  marked and their fans, from both tables and from the heap, and leaves every other node and
  object as it was, in a registry that is again well formed (nothing dangles or leaks).\<close>

theorem sweep_removes_exactly_unmarked:
  assumes "registry_ok s"
    and "gone = {a. \<exists>x. subsystem_heap s a = Some x \<and> \<not> sub_marked x}"
    and "dead = {fa. \<exists>f. fan_heap s fa = Some f \<and> fan_subsystem f \<in> gone}"
  shows "\<exists>t. fand_remove_unmarked_subsystems E s = Inr t \<and> registry_ok t \<and>
    t = s\<lparr>subsystem_data := filter (\<lambda>node. snd node \<notin> gone) (subsystem_data s),
          fan_data := filter (\<lambda>node. snd node \<notin> dead) (fan_data s),
          subsystem_heap := subsystem_heap s |` (- gone),
          fan_heap := fan_heap s |` (- dead)\<rparr>"
proof (intro exI conjI)
  show "fand_remove_unmarked_subsystems E s = Inr (purge gone s)"
    using fand_remove_unmarked_subsystems_eq [OF assms(1), of E]
    by (simp add: unmarked_def flip: assms(2))
  show "registry_ok (purge gone s)" by (rule purge_ok [OF assms(1)])
  have "owned_by gone s fa \<longleftrightarrow> fa \<in> dead" for fa by (simp add: owned_by_def assms(3))
  then show "purge gone s = s\<lparr>subsystem_data := filter (\<lambda>node. snd node \<notin> gone) (subsystem_data s),
          fan_data := filter (\<lambda>node. snd node \<notin> dead) (fan_data s),
          subsystem_heap := subsystem_heap s |` (- gone),
          fan_heap := fan_heap s |` (- dead)\<rparr>"
    by (simp add: purge_def Compl_eq)
qed

text \<open>Two subsystems with a fan each, one of them no longer marked.\<close>

definition bench_two :: "(string list, bench_dev) fand" where
  "bench_two =
     (bench_fand ((bench_sub FAND_SPEED_NONE FAND_SPEED_SLOW)\<lparr>subsystem_fans := [(''base-1L'', 11)]\<rparr>))
     \<lparr>subsystem_data := [(''base'', 1), (''aux'', 2)],
      fan_data := [(''base-1L'', 11), (''aux-1L'', 12)],
      subsystem_heap :=
        [1 \<mapsto> (bench_sub FAND_SPEED_NONE FAND_SPEED_SLOW)\<lparr>subsystem_fans := [(''base-1L'', 11)]\<rparr>,
         2 \<mapsto> (bench_sub FAND_SPEED_NONE FAND_SPEED_SLOW)
           \<lparr>sub_name := ''aux'', sub_marked := False, subsystem_fans := [(''aux-1L'', 12)]\<rparr>],
      fan_heap := [11 \<mapsto> bench_junk_fan\<lparr>fan_name := ''base-1L'', fan_subsystem := 1\<rparr>,
                   12 \<mapsto> bench_junk_fan\<lparr>fan_name := ''aux-1L'', fan_subsystem := 2\<rparr>],
      next_addr := 20\<rparr>"

lemma bench_two_ok: "registry_ok bench_two"
  by (auto simp: registry_ok_def subsystem_ok_def fan_ok_def bench_two_def bench_fand_def bench_sub_def
      split: if_splits)

theorem sweep_removes_exactly_unmarked_witness:
  "\<exists>t. fand_remove_unmarked_subsystems bench bench_two = Inr t \<and> registry_ok t \<and>
     subsystem_data t = [(''base'', 1)] \<and> fan_data t = [(''base-1L'', 11)] \<and>
     subsystem_heap t 2 = None \<and> fan_heap t 12 = None"
  using sweep_removes_exactly_unmarked [OF bench_two_ok refl refl, of bench]
  by (auto simp: bench_two_def bench_fand_def bench_sub_def)

end
