(* ===== verification/Daemon.thy ===== *)
theory Daemon
  imports Registry
begin

text \<open>
  The daemon proper: \<open>fand_read_status\<close>, \<open>fand_reconfigure\<close>, \<open>fand_run\<close>,
  \<open>fand_unixctl_dump\<close>, \<open>ops_fand_exit\<close> and the main loop of \<open>src/fand.c\<close>.
\<close>

section \<open>Publishing the fans' status\<close>

text \<open>Lines 435 to 444: read every fan of every subsystem.\<close>

definition read_registered_fan ::
  "('y, 'w) services \<Rightarrow> addr \<Rightarrow> shash_node \<Rightarrow> ('y, 'w) fand \<Rightarrow> ('y, 'w) fand res" where
  "read_registered_fan E a fan_node s =
     res_bind (load (subsystem_heap s) a) (\<lambda>sub.
     res_bind (load (fan_heap s) (snd fan_node)) (\<lambda>fan.
       fand_read_fan_status E (snd fan_node)
         (store_fan (snd fan_node) (fan\<lparr>fan_speed := sub_speed sub\<rparr>) s)))"

definition read_subsystem_fans ::
  "('y, 'w) services \<Rightarrow> shash_node \<Rightarrow> ('y, 'w) fand \<Rightarrow> ('y, 'w) fand res" where
  "read_subsystem_fans E node s =
     res_bind (load (subsystem_heap s) (snd node)) (\<lambda>sub.
       for_each (read_registered_fan E (snd node))
         (shash_nodes (hash_bucket E) (subsystem_fans sub)) s)"

definition read_all_fans :: "('y, 'w) services \<Rightarrow> ('y, 'w) fand \<Rightarrow> ('y, 'w) fand res" where
  "read_all_fans E s =
     for_each (read_subsystem_fans E) (shash_nodes (hash_bucket E) (subsystem_data s)) s"

text \<open>
  Lines 451 to 474: bring one row up to date; the flag tells whether a column was written.
  The fan is looked up by the row's name, and the node is used without a test.
\<close>

definition refresh_row :: "locl_fan \<Rightarrow> ovsrec_fan \<Rightarrow> ovsrec_fan \<times> bool" where
  "refresh_row fan row =
     (let change = False;
          status = fan_status_enum_to_string (fan_status fan);
          (row, change) = (if row_status row \<noteq> status
                           then (row\<lparr>row_status := status\<rparr>, True) else (row, change));
          speed = fan_speed_enum_to_string (fan_speed fan);
          (row, change) = (if row_speed row \<noteq> speed
                           then (row\<lparr>row_speed := speed\<rparr>, True) else (row, change));
          (row, change) = (if row_direction row \<noteq> fan_direction fan
                           then (row\<lparr>row_direction := fan_direction fan\<rparr>, True) else (row, change));
          rpm = scast (fan_rpm fan)
      in if row_rpm row = None \<or> row_rpm row \<noteq> Some rpm
         then (row\<lparr>row_rpm := Some rpm\<rparr>, True) else (row, change))"

definition publish_row ::
  "('y, 'w) services \<Rightarrow> ('y, 'w) fand \<Rightarrow> ovsrec_fan \<Rightarrow> ovsrec_fan list \<times> bool
     \<Rightarrow> (ovsrec_fan list \<times> bool) res" where
  "publish_row E s row = (\<lambda>(rows, change).
     res_bind (deref (shash_find (hash_bucket E) (fan_data s) (row_name row))) (\<lambda>fan_node.
     res_bind (load (fan_heap s) (snd fan_node)) (\<lambda>fan.
       let (row, written) = refresh_row fan row
       in Inr (rows @ [row], change \<or> written))))"

text \<open>
  Lines 476 to 486: the first row of the daemon table with this daemon's name. The flag is
  set here, before the transaction is committed.
\<close>

fun set_cur_hw :: "ovsrec_daemon list \<Rightarrow> ovsrec_daemon list \<times> bool" where
  "set_cur_hw [] = ([], False)"
| "set_cur_hw (d # ds) =
     (if daemon_name d = ''ops-fand'' then (d\<lparr>daemon_cur_hw := 1\<rparr> # ds, True)
      else let (ds, found) = set_cur_hw ds in (d # ds, found))"

definition publish_status :: "('y, 'w) services \<Rightarrow> ('y, 'w) fand \<Rightarrow> ('y, 'w) fand res" where
  "publish_status E s =
     (let db = idl_db s in
      res_bind (for_each (publish_row E s) (db_fans db) ([], False)) (\<lambda>(rows, change).
        let (daemons, found) =
              (if cur_hw_set s then (db_daemons db, False) else set_cur_hw (db_daemons db));
            s = s\<lparr>cur_hw_set := cur_hw_set s \<or> found\<rparr>;
            change = (change \<or> found)
        in Inr (if change
                then commit_block E (db\<lparr>db_fans := rows, db_daemons := daemons\<rparr>) s
                else s)))"

definition fand_read_status :: "('y, 'w) services \<Rightarrow> ('y, 'w) fand \<Rightarrow> ('y, 'w) fand res" where
  "fand_read_status E s = res_bind (read_all_fans E s) (publish_status E)"

section \<open>Reconfiguration\<close>

text \<open>Lines 531 to 539: the sensors' demand, never below \<open>SLOW\<close>.\<close>

definition highest_sensor :: "string list \<Rightarrow> fanspeed" where
  "highest_sensor states =
     fold (\<lambda>state highest.
         let speed = fan_speed_string_to_enum (Some state)
         in if highest < speed then speed else highest)
       states FAND_SPEED_SLOW"

text \<open>Lines 540 to 548.\<close>

definition take_config :: "ovsrec_subsystem \<Rightarrow> locl_subsystem \<Rightarrow> locl_subsystem" where
  "take_config cfg sub =
     (let sub = sub\<lparr>sub_fan_speed := highest_sensor (cfg_temp_sensors cfg)\<rparr>;
          override_value = fan_speed_string_to_enum
            (smap_get (cfg_other_config cfg) ''fan_speed_override'')
      in if sub_fan_speed_override sub \<noteq> override_value
         then sub\<lparr>sub_fan_speed_override := override_value\<rparr> else sub)"

text \<open>Lines 524 to 554: one subsystem row.\<close>

definition mark_subsystem :: "addr \<Rightarrow> ('y, 'w) fand \<Rightarrow> ('y, 'w) fand res" where
  "mark_subsystem a s =
     res_bind (load (subsystem_heap s) a) (\<lambda>sub.
       Inr (store_sub a (sub\<lparr>sub_marked := True\<rparr>) s))"

definition configure_subsystem ::
  "('y, 'w) services \<Rightarrow> ovsrec_subsystem \<Rightarrow> addr \<Rightarrow> ('y, 'w) fand \<Rightarrow> ('y, 'w) fand res" where
  "configure_subsystem E cfg a s =
     res_bind (load (subsystem_heap s) a) (\<lambda>sub.
     res_bind (fand_set_fanspeed E a (store_sub a (take_config cfg sub) s)) (\<lambda>s.
     res_bind (fand_set_fanleds E a s) (mark_subsystem a)))"

definition reconfigure_subsystem ::
  "('y, 'w) services \<Rightarrow> ovsrec_subsystem \<Rightarrow> ('y, 'w) fand \<Rightarrow> ('y, 'w) fand res" where
  "reconfigure_subsystem E cfg s =
     res_bind (get_subsystem E cfg s) (\<lambda>(subsystem, s).
       case subsystem of
         None \<Rightarrow> Inr s
       | Some a \<Rightarrow> configure_subsystem E cfg a s)"

definition fand_reconfigure :: "('y, 'w) services \<Rightarrow> ('y, 'w) fand \<Rightarrow> ('y, 'w) fand res" where
  "fand_reconfigure E s =
     (let new_idl_seqno = db_seqno (idl_db s) in
      if new_idl_seqno = idl_seqno s then Inr s
      else
        let s = s\<lparr>idl_seqno := new_idl_seqno\<rparr> in
        res_bind (fand_unmark_subsystems E s) (\<lambda>s.
        res_bind (for_each (reconfigure_subsystem E) (db_subsystems (idl_db s)) s)
          (fand_remove_unmarked_subsystems E)))"

section \<open>One iteration\<close>

text \<open>What \<open>ovsdb_idl_run\<close> brings: the new replica and the state of the lock.\<close>

record idl_input =
  in_db :: ovsdb
  in_lock_contended :: bool
  in_has_lock :: bool

definition fand_run ::
  "('y, 'w) services \<Rightarrow> idl_input \<Rightarrow> ('y, 'w) fand \<Rightarrow> ('y, 'w) fand res" where
  "fand_run E inp s =
     (let s = s\<lparr>idl_db := in_db inp\<rparr> in
      if in_lock_contended inp then Inr s
      else if \<not> in_has_lock inp then Inr s
      else res_bind (fand_reconfigure E s) (fand_read_status E))"

section \<open>The control socket\<close>

abbreviation newline :: string where
  "newline \<equiv> [CHR 0x0A]"

definition dump_fan :: "locl_fan \<Rightarrow> string" where
  "dump_fan fan =
     ''        Name: '' @ fan_name fan @ newline @
     ''            rpm: '' @ show_int (sint (fan_rpm fan)) @ newline @
     ''            direction: '' @ fan_direction fan @ newline @
     ''            status: '' @ fan_status_enum_to_string (fan_status fan) @ newline"

definition dump_subsystem ::
  "('y, 'w) services \<Rightarrow> ('y, 'w) fand \<Rightarrow> shash_node \<Rightarrow> string \<Rightarrow> string res" where
  "dump_subsystem E s node ds =
     res_bind (load (subsystem_heap s) (snd node)) (\<lambda>sub.
       let ds = ds @
         ''Subsystem: '' @ sub_name sub @ newline @
         ''    Fan speed Override: '' @
           fan_speed_enum_to_string (sub_fan_speed_override sub) @ newline @
         ''    Fan speed: '' @ fan_speed_enum_to_string (sub_fan_speed sub) @ newline @
         ''    Fan details:''
       in if shash_is_empty (subsystem_fans sub) then Inr (ds @ ''No Fans found.'' @ newline)
          else
            for_each (\<lambda>fan_node ds.
                res_bind (load (fan_heap s) (snd fan_node)) (\<lambda>fan. Inr (ds @ dump_fan fan)))
              (shash_nodes (hash_bucket E) (subsystem_fans sub)) (ds @ newline))"

definition fand_unixctl_dump :: "('y, 'w) services \<Rightarrow> ('y, 'w) fand \<Rightarrow> string res" where
  "fand_unixctl_dump E s =
     for_each (dump_subsystem E s) (shash_nodes (hash_bucket E) (subsystem_data s)) ''''"

section \<open>The main loop\<close>

text \<open>
  The commands a client can send over the control socket, and the state of \<open>main\<close>: the
  process, \<open>exiting\<close> and the replies sent so far. \<open>ops_fand_exit\<close> replies with nothing.
\<close>

datatype command = Dump | Exit

record ('y, 'w) daemon =
  proc :: "('y, 'w) fand"
  exiting :: bool
  replies :: "string option list"

definition run_command ::
  "('y, 'w) services \<Rightarrow> command \<Rightarrow> ('y, 'w) daemon \<Rightarrow> ('y, 'w) daemon res" where
  "run_command E c d =
     (case c of
        Dump \<Rightarrow> res_bind (fand_unixctl_dump E (proc d)) (\<lambda>ds.
          Inr (d\<lparr>replies := replies d @ [Some ds]\<rparr>))
      | Exit \<Rightarrow> Inr (d\<lparr>exiting := True, replies := replies d @ [None]\<rparr>))"

definition main_iteration ::
  "('y, 'w) services \<Rightarrow> idl_input \<Rightarrow> command list \<Rightarrow> ('y, 'w) daemon \<Rightarrow> ('y, 'w) daemon res" where
  "main_iteration E inp commands d =
     res_bind (fand_run E inp (proc d)) (\<lambda>s.
       for_each (run_command E) commands (d\<lparr>proc := s\<rparr>))"

definition main_start :: "('y, 'w) services \<Rightarrow> 'w \<Rightarrow> ovsdb \<Rightarrow> ('y, 'w) daemon" where
  "main_start E w db = \<lparr>proc = fand_init E w db, exiting = False, replies = []\<rparr>"

text \<open>
  \<open>while (!exiting)\<close>: each iteration is one step, with any input from the database and any
  commands; a step into a fault is a run that is not described further.
\<close>

inductive main_loop ::
  "('y, 'w) services \<Rightarrow> 'w \<Rightarrow> ovsdb \<Rightarrow> (idl_input \<times> command list) list
     \<Rightarrow> ('y, 'w) daemon res \<Rightarrow> bool"
  for E w db where
  start: "main_loop E w db [] (Inr (main_start E w db))"
| iterate: "main_loop E w db ins (Inr d) \<Longrightarrow> \<not> exiting d \<Longrightarrow>
     main_loop E w db (ins @ [(inp, commands)]) (main_iteration E inp commands d)"

inductive_cases main_loop_Nil: "main_loop E w db [] r"

lemma highest_sensor_eq:
  "highest_sensor states =
     Max (insert FAND_SPEED_SLOW ((\<lambda>st. fan_speed_string_to_enum (Some st)) ` set states))"
proof -
  let ?speed = "\<lambda>st. fan_speed_string_to_enum (Some st)"
  have "(\<lambda>st highest. let speed = ?speed st in if highest < speed then speed else highest) =
      max \<circ> ?speed"
    by (auto simp: fun_eq_iff Let_def max_def)
  then have "highest_sensor states = fold max (map ?speed states) FAND_SPEED_SLOW"
    by (simp add: highest_sensor_def fold_map)
  also have "\<dots> = Max (insert FAND_SPEED_SLOW (set (map ?speed states)))"
    by (simp only: Max.set_eq_fold [symmetric] list.set)
  finally show ?thesis by simp
qed

lemma highest_sensor_at_max:
  assumes "''max'' \<in> set states"
  shows "highest_sensor states = FAND_SPEED_MAX"
proof -
  have "fan_speed_string_to_enum (Some ''max'') = FAND_SPEED_MAX"
    by (simp add: fan_speed_string_to_enum_def fanspeed_string_def fanspeed_of_index_def)
  with assms have "FAND_SPEED_MAX \<in> insert FAND_SPEED_SLOW
      ((\<lambda>st. fan_speed_string_to_enum (Some st)) ` set states)" (is "_ \<in> ?A")
    by (metis imageI insertCI)
  then have "FAND_SPEED_MAX \<le> Max ?A" by (intro Max_ge) simp_all
  with fanspeed_bounds(2) show ?thesis unfolding highest_sensor_eq by (simp add: antisym)
qed

lemma highest_sensor_max_iff: "highest_sensor states = FAND_SPEED_MAX \<longleftrightarrow> ''max'' \<in> set states"
proof
  let ?A = "insert FAND_SPEED_SLOW ((\<lambda>st. fan_speed_string_to_enum (Some st)) ` set states)"
  assume "highest_sensor states = FAND_SPEED_MAX"
  then have "Max ?A = FAND_SPEED_MAX" by (simp only: highest_sensor_eq)
  moreover have "Max ?A \<in> ?A" by (intro Max_in) simp_all
  ultimately obtain st where "st \<in> set states" "fan_speed_string_to_enum (Some st) = FAND_SPEED_MAX"
    by auto
  moreover have "st = ''max''" if "fan_speed_string_to_enum (Some st) = FAND_SPEED_MAX" for st
    using that by (auto simp: fan_speed_string_to_enum_def fanspeed_string_def
        fanspeed_of_index_def split: if_splits)
  ultimately show "''max'' \<in> set states" by blast
qed (rule highest_sensor_at_max)

section \<open>Properties\<close>

text \<open>What the sensors ask for. The speed taken from the temperature sensors is the greatest
  of their demands, where a sensor with an unknown state demands nothing, and at least slow.\<close>

lemma highest_sensor_is_max:
  "highest_sensor states =
     Max (insert FAND_SPEED_SLOW ((\<lambda>st. fan_speed_string_to_enum (Some st)) ` set states))"
  by (rule highest_sensor_eq)

text \<open>One row of the database. After \<open>refresh_row\<close> the row says what the daemon knows of
  the fan, its other columns are unchanged, the flag tells exactly whether something had to be
  written, and a second refresh writes nothing.\<close>

lemma refresh_row_writes_what_differs:
  "let (row', written) = refresh_row fan row in
     row_status row' = fan_status_enum_to_string (fan_status fan) \<and>
     row_speed row' = fan_speed_enum_to_string (fan_speed fan) \<and>
     row_direction row' = fan_direction fan \<and> row_rpm row' = Some (scast (fan_rpm fan)) \<and>
     row_name row' = row_name row \<and> row_uuid row' = row_uuid row \<and>
     written = (row' \<noteq> row) \<and> refresh_row fan row' = (row', False)"
  by (cases row) (auto simp: refresh_row_def Let_def)

end
