(* ===== verification/Platform.thy ===== *)
theory Platform
  imports Registry_Add Registry_Sweep Daemon
begin

text \<open>
  What the daemon relies on outside this repository, as predicates on the services and on
  the database, and the catalogue of hardware descriptions they are stated with.

  A catalogue says what the description files hold: for the name of a subsystem its fan
  information and its FRUs. \<open>yaml_library\<close> is the contract of the config-yaml calls: work on
  one subsystem leaves what is known of the others alone, a catalogued subsystem with a
  directory loads, and what the getters answer after loading is the catalogue's entry. The
  contract also covers subsystems without a catalogue entry, whose files may fail to load
  or have no fans.
\<close>

section \<open>The catalogue\<close>

type_synonym catalog = "string \<rightharpoonup> yaml_fan_info \<times> yaml_fan_fru list"

text \<open>
  An entry the daemon can work with: there is an FRU, the fans of the subsystem have
  different names, and scaling a 16-bit reading by the multiplier stays within \<open>int\<close>.
\<close>

definition sound_entry :: "yaml_fan_info \<times> yaml_fan_fru list \<Rightarrow> bool" where
  "sound_entry d \<longleftrightarrow> snd d \<noteq> [] \<and> distinct (map yf_name (all_fans (snd d))) \<and>
     \<bar>sint (fan_speed_multiplier (fst d))\<bar> \<le> 32768"

definition same_description :: "('y, 'w) services \<Rightarrow> 'y \<Rightarrow> 'y \<Rightarrow> string \<Rightarrow> bool" where
  "same_description E y y' name \<longleftrightarrow>
     yaml_get_fan_info E y' name = yaml_get_fan_info E y name \<and>
     yaml_get_fan_fru_count E y' name = yaml_get_fan_fru_count E y name \<and>
     yaml_get_fan_fru E y' name = yaml_get_fan_fru E y name"

definition keeps_others :: "('y, 'w) services \<Rightarrow> string \<Rightarrow> 'y \<Rightarrow> 'y \<Rightarrow> bool" where
  "keeps_others E name y y' \<longleftrightarrow> (\<forall>other. other \<noteq> name \<longrightarrow> same_description E y y' other)"

text \<open>What the getters answer for a name after its files were parsed.\<close>

definition parsed :: "('y, 'w) services \<Rightarrow> catalog \<Rightarrow> 'y \<Rightarrow> string \<Rightarrow> bool" where
  "parsed E cat y name \<longleftrightarrow>
     (case cat name of
        None \<Rightarrow> yaml_get_fan_info E y name = None \<or> yaml_get_fan_fru_count E y name \<le> 0
      | Some (info, frus) \<Rightarrow> described E y name info frus)"

definition yaml_library :: "('y, 'w) services \<Rightarrow> catalog \<Rightarrow> bool" where
  "yaml_library E cat \<longleftrightarrow>
     (\<forall>name d. cat name = Some d \<longrightarrow> sound_entry d) \<and>
     (\<forall>y name dir. keeps_others E name y (snd (yaml_add_subsystem E y name dir))) \<and>
     (\<forall>y name. keeps_others E name y (snd (yaml_parse_devices E y name))) \<and>
     (\<forall>y name. keeps_others E name y (snd (yaml_parse_fans E y name))) \<and>
     (\<forall>y name dir. cat name \<noteq> None \<longrightarrow> fst (yaml_add_subsystem E y name dir) = 0) \<and>
     (\<forall>y name dir. cat name \<noteq> None \<longrightarrow>
        (let y1 = snd (yaml_add_subsystem E y name dir);
             y2 = snd (yaml_parse_devices E y1 name)
         in fst (yaml_parse_devices E y1 name) = 0 \<and> fst (yaml_parse_fans E y2 name) = 0)) \<and>
     (\<forall>y name. fst (yaml_parse_fans E y name) = 0 \<longrightarrow>
        parsed E cat (snd (yaml_parse_fans E y name)) name)"

definition platform :: "('y, 'w) services \<Rightarrow> catalog \<Rightarrow> bool" where
  "platform E cat \<longleftrightarrow> yaml_library E cat \<and> byte_registers E"

section \<open>Loading a description\<close>

definition has_directory :: "ovsrec_subsystem \<Rightarrow> bool" where
  "has_directory cfg \<longleftrightarrow> cfg_hw_desc_dir cfg \<noteq> None \<and> cfg_hw_desc_dir cfg \<noteq> Some ''''"

text \<open>A subsystem row the daemon will manage.\<close>

definition loadable :: "catalog \<Rightarrow> ovsrec_subsystem \<Rightarrow> bool" where
  "loadable cat cfg \<longleftrightarrow> has_directory cfg \<and> cat (cfg_name cfg) \<noteq> None"

lemma keeps_others_refl [simp]: "keeps_others E name y y"
  by (simp add: keeps_others_def same_description_def)

lemma keeps_others_trans:
  "keeps_others E name y y' \<Longrightarrow> keeps_others E name y' y'' \<Longrightarrow> keeps_others E name y y''"
  by (simp add: keeps_others_def same_description_def)

lemma same_description_described:
  assumes "same_description E y y' name"
  shows "described E y' name info frus = described E y name info frus"
  using assms by (simp add: same_description_def described_def described_frus_def)

lemma load_description_keeps:
  assumes "yaml_library E cat" and "load_description E cfg y = (p, y')"
  shows "keeps_others E (cfg_name cfg) y y'"
proof -
  let ?n = "cfg_name cfg"
  have add: "keeps_others E ?n y (snd (yaml_add_subsystem E y ?n dir))" for y dir
    using assms(1) by (simp add: yaml_library_def)
  have dev: "keeps_others E ?n y (snd (yaml_parse_devices E y ?n))" for y
    using assms(1) by (simp add: yaml_library_def)
  have fans: "keeps_others E ?n y (snd (yaml_parse_fans E y ?n))" for y
    using assms(1) by (simp add: yaml_library_def)
  show ?thesis
  proof (cases "cfg_hw_desc_dir cfg")
    case (Some dir)
    let ?y1 = "snd (yaml_add_subsystem E y ?n dir)"
    let ?y2 = "snd (yaml_parse_devices E ?y1 ?n)"
    let ?y3 = "snd (yaml_parse_fans E ?y2 ?n)"
    have "y' \<in> {y, ?y1, ?y2, ?y3}"
      using assms(2) Some by (auto simp: load_description_def split: prod.splits if_splits)
    moreover have one: "keeps_others E ?n y ?y1" by (rule add)
    moreover have two: "keeps_others E ?n y ?y2" by (rule keeps_others_trans [OF one dev])
    moreover have "keeps_others E ?n y ?y3" by (rule keeps_others_trans [OF two fans])
    ultimately show ?thesis by auto
  qed (use assms(2) in \<open>simp add: load_description_def\<close>)
qed

lemma loadable_other [simp]:
  "loadable cat (cfg\<lparr>cfg_temp_sensors := ts\<rparr>) = loadable cat cfg"
  "loadable cat (cfg\<lparr>cfg_other_config := oc\<rparr>) = loadable cat cfg"
  by (simp_all add: loadable_def has_directory_def)

text \<open>A load that answers fan information went through every step.\<close>

lemma load_description_parsed:
  assumes "yaml_library E cat" and "load_description E cfg y = (Some info, y')"
  shows "has_directory cfg" and "parsed E cat y' (cfg_name cfg)"
    and "yaml_get_fan_info E y' (cfg_name cfg) = Some info"
proof -
  let ?n = "cfg_name cfg"
  obtain dir where dir: "cfg_hw_desc_dir cfg = Some dir" "dir \<noteq> ''''"
    using assms(2) by (auto simp: load_description_def split: option.splits if_splits)
  let ?y1 = "snd (yaml_add_subsystem E y ?n dir)"
  let ?y2 = "snd (yaml_parse_devices E ?y1 ?n)"
  have y': "y' = snd (yaml_parse_fans E ?y2 ?n)" and rc: "fst (yaml_parse_fans E ?y2 ?n) = 0"
    and info: "yaml_get_fan_info E y' ?n = Some info"
    using assms(2) dir by (auto simp: load_description_def split: prod.splits if_splits)
  from info show "yaml_get_fan_info E y' ?n = Some info" .
  show "has_directory cfg" using dir by (simp add: has_directory_def)
  show "parsed E cat y' ?n" using assms(1) y' rc by (simp add: yaml_library_def)
qed

lemma load_description_loadable:
  assumes "yaml_library E cat" and "has_directory cfg" and "cat (cfg_name cfg) = Some (info, frus)"
  obtains y' where "load_description E cfg y = (Some info, y')"
    and "described E y' (cfg_name cfg) info frus"
proof -
  let ?n = "cfg_name cfg"
  obtain dir where dir: "cfg_hw_desc_dir cfg = Some dir" "dir \<noteq> ''''"
    using assms(2) by (auto simp: has_directory_def)
  let ?y1 = "snd (yaml_add_subsystem E y ?n dir)"
  let ?y2 = "snd (yaml_parse_devices E ?y1 ?n)"
  let ?y3 = "snd (yaml_parse_fans E ?y2 ?n)"
  have rc: "fst (yaml_add_subsystem E y ?n dir) = 0" "fst (yaml_parse_devices E ?y1 ?n) = 0"
    "fst (yaml_parse_fans E ?y2 ?n) = 0"
    using assms(1,3) by (auto simp: yaml_library_def Let_def)
  then have "parsed E cat ?y3 ?n" using assms(1) by (simp add: yaml_library_def)
  then have desc: "described E ?y3 ?n info frus" by (simp add: parsed_def assms(3))
  then have "yaml_get_fan_info E ?y3 ?n = Some info" by (simp add: described_def)
  with rc dir have "load_description E cfg y = (Some info, ?y3)"
    by (auto simp: load_description_def split: prod.splits)
  with desc that show thesis by blast
qed

section \<open>The bench keeps the contracts\<close>

definition bench_cat :: catalog where
  "bench_cat = [''base'' \<mapsto> (bench_info, bench_frus)]"

lemma bench_described [simp]:
  "name \<in> set y \<Longrightarrow> described bench y name info frus \<longleftrightarrow> info = bench_info \<and> frus = bench_frus"
  by (auto simp: described_def)

lemma platform_bench [simp]: "platform bench bench_cat"
proof -
  have "sound_entry (bench_info, bench_frus)"
    by (simp add: sound_entry_def bench_frus_def)
  then have "yaml_library bench bench_cat"
    by (auto simp: yaml_library_def keeps_others_def same_description_def parsed_def bench_cat_def
        split: if_splits option.splits)
  then show ?thesis by (simp add: platform_def)
qed

lemma yaml_library_bench [simp]: "yaml_library bench bench_cat"
  using platform_bench by (simp add: platform_def)

text \<open>The bench before the replica was filled: sequence number 0, no rows.\<close>

definition empty_db :: ovsdb where
  "empty_db = \<lparr>db_fans = [], db_subsystems = [], db_daemons = [], db_seqno = 0\<rparr>"

lemma bench_cfg_simps [simp]:
  "cfg_name bench_cfg = ''base''" "loadable bench_cat bench_cfg"
  "cfg_temp_sensors bench_cfg = [''normal'', ''fast'']" "cfg_other_config bench_cfg = Map.empty"
  "db_subsystems bench_db = [bench_cfg]" "db_seqno bench_db = 7" "db_fans bench_db = []"
  by (simp_all add: bench_cfg_def bench_db_def loadable_def has_directory_def bench_cat_def)

end
