(* ===== verification/Daemon_Inv.thy ===== *)
theory Daemon_Inv
  imports Platform
begin

text \<open>
  The invariant of the running daemon and its preservation by the steps of
  \<open>fand_reconfigure\<close>. On top of \<open>registry_ok\<close> it ties every registered subsystem to the
  catalogue: a valid subsystem has exactly the fans of its entry and the entry's scaling
  factors, one that is not valid has no fans.
\<close>

section \<open>Names\<close>

text \<open>
  The daemon joins the names of a subsystem and a fan by a dash. What it needs is that the
  joined names of different subsystems differ; subsystem names without a dash are one way to
  have that.
\<close>

definition dashless :: "string \<Rightarrow> bool" where
  "dashless n \<longleftrightarrow> CHR ''-'' \<notin> set n"

lemma full_fan_name_inject:
  assumes "dashless a" and "dashless b"
  shows "full_fan_name a x = full_fan_name b y \<longleftrightarrow> a = b \<and> x = y"
proof
  have eq: "takeWhile (\<lambda>c. c \<noteq> CHR ''-'') (full_fan_name n z) = n" if "dashless n" for n z
    using that unfolding full_fan_name_def dashless_def
    by (subst takeWhile_append2) auto
  assume full: "full_fan_name a x = full_fan_name b y"
  then have "a = b" using eq [OF assms(1), of x] eq [OF assms(2), of y] by simp
  with full show "a = b \<and> x = y" by (simp add: full_fan_name_def)
qed simp

lemma distinct_fan_names:
  "distinct (map yf_name fans) \<Longrightarrow> distinct (fan_names n fans)"
  by (induction fans) (auto simp: fan_names_def full_fan_name_def)

text \<open>The names the catalogue gives the fans of a subsystem.\<close>

definition catalog_names :: "catalog \<Rightarrow> string \<Rightarrow> string list" where
  "catalog_names cat n =
     (case cat n of None \<Rightarrow> [] | Some (info, frus) \<Rightarrow> fan_names n (all_fans frus))"

definition unambiguous :: "catalog \<Rightarrow> string \<Rightarrow> bool" where
  "unambiguous cat n \<longleftrightarrow>
     (\<forall>m. m \<noteq> n \<longrightarrow> set (catalog_names cat m) \<inter> set (catalog_names cat n) = {})"

lemma catalog_names_disjoint:
  "unambiguous cat n \<Longrightarrow> m \<noteq> n \<Longrightarrow> set (catalog_names cat m) \<inter> set (catalog_names cat n) = {}"
  by (simp add: unambiguous_def)

lemma dashless_unambiguous:
  assumes "\<forall>m. cat m \<noteq> None \<longrightarrow> dashless m"
  shows "unambiguous cat n"
proof -
  have "set (catalog_names cat m) \<inter> set (catalog_names cat n) = {}" if "m \<noteq> n" for m
  proof (cases "cat m = None \<or> cat n = None")
    case False
    with assms have "dashless m" "dashless n" by auto
    from full_fan_name_inject [OF this] that show ?thesis
      by (auto simp: catalog_names_def fan_names_def split: option.splits)
  qed (auto simp: catalog_names_def)
  then show ?thesis by (simp add: unambiguous_def)
qed

lemma unambiguous_bench [simp]: "unambiguous bench_cat n"
  by (rule dashless_unambiguous) (simp add: bench_cat_def dashless_def)

section \<open>The invariant\<close>

definition entry_known ::
  "('y, 'w) services \<Rightarrow> catalog \<Rightarrow> ('y, 'w) fand \<Rightarrow> locl_subsystem \<Rightarrow> yaml_fan_info
     \<Rightarrow> yaml_fan_fru list \<Rightarrow> bool" where
  "entry_known E cat s sub info frus \<longleftrightarrow>
     cat (sub_name sub) = Some (info, frus) \<and>
     described E (yaml_handle s) (sub_name sub) info frus \<and>
     sub_multiplier sub = fan_speed_multiplier info \<and>
     sub_numerator sub = fan_speed_numerator info \<and>
     fst ` set (subsystem_fans sub) = set (catalog_names cat (sub_name sub)) \<and>
     (\<forall>node \<in> set (subsystem_fans sub). \<exists>f. fan_heap s (snd node) = Some f \<and>
        fan_yaml f \<in> set (all_fans frus))"

definition subsystem_known ::
  "('y, 'w) services \<Rightarrow> catalog \<Rightarrow> ('y, 'w) fand \<Rightarrow> locl_subsystem \<Rightarrow> bool" where
  "subsystem_known E cat s sub \<longleftrightarrow>
     (if sub_valid sub then \<exists>info frus. entry_known E cat s sub info frus
      else subsystem_fans sub = [])"

definition daemon_ok :: "('y, 'w) services \<Rightarrow> catalog \<Rightarrow> ('y, 'w) fand \<Rightarrow> bool" where
  "daemon_ok E cat s \<longleftrightarrow> registry_ok s \<and>
     (\<forall>(n, a) \<in> set (subsystem_data s). unambiguous cat n \<and>
        (\<forall>sub. subsystem_heap s a = Some sub \<longrightarrow> subsystem_known E cat s sub))"

lemma daemon_ok_D:
  assumes "daemon_ok E cat s"
  shows "registry_ok s" "\<And>n a. (n, a) \<in> set (subsystem_data s) \<Longrightarrow> unambiguous cat n"
    "\<And>n a sub. (n, a) \<in> set (subsystem_data s) \<Longrightarrow> subsystem_heap s a = Some sub \<Longrightarrow>
       subsystem_known E cat s sub"
  using assms by (auto simp: daemon_ok_def)

lemma daemon_okI:
  assumes reg: "registry_ok s"
    and "\<And>n a x. (n, a) \<in> set (subsystem_data s) \<Longrightarrow> subsystem_heap s a = Some x \<Longrightarrow>
      unambiguous cat n \<and> subsystem_known E cat s x"
  shows "daemon_ok E cat s"
proof -
  have "\<exists>x. subsystem_heap s a = Some x" if "(n, a) \<in> set (subsystem_data s)" for n a
    using registered_subsystem [OF reg that] by metis
  with assms show ?thesis unfolding daemon_ok_def by fast
qed

lemma subsystem_known_valid:
  assumes "subsystem_known E cat s sub" and "sub_valid sub"
  obtains info frus where "entry_known E cat s sub info frus"
  using assms by (auto simp: subsystem_known_def)

lemma entry_known_D:
  assumes "entry_known E cat s sub info frus"
  shows "cat (sub_name sub) = Some (info, frus)"
    and "described E (yaml_handle s) (sub_name sub) info frus"
    and "sub_multiplier sub = fan_speed_multiplier info"
    and "sub_numerator sub = fan_speed_numerator info"
    and "fst ` set (subsystem_fans sub) = set (catalog_names cat (sub_name sub))"
    and "\<And>node. node \<in> set (subsystem_fans sub) \<Longrightarrow>
      \<exists>f. fan_heap s (snd node) = Some f \<and> fan_yaml f \<in> set (all_fans frus)"
  using assms unfolding entry_known_def by blast+

text \<open>A fan known to the daemon belongs to a valid subsystem whose entry names it.\<close>

lemma known_fan_name:
  assumes "daemon_ok E cat s" and "m \<in> fst ` set (fan_data s)"
  obtains n a sub where "(n, a) \<in> set (subsystem_data s)" and "subsystem_heap s a = Some sub"
    and "sub_name sub = n" and "sub_valid sub" and "m \<in> set (catalog_names cat n)"
    and "m \<in> fst ` set (subsystem_fans sub)"
proof -
  note ok = daemon_ok_D [OF assms(1)]
  from assms(2) obtain fa where fa: "(m, fa) \<in> set (fan_data s)" by auto
  obtain f sub where f: "fan_heap s fa = Some f"
    and sub: "(sub_name sub, fan_subsystem f) \<in> set (subsystem_data s)"
    "subsystem_heap s (fan_subsystem f) = Some sub" "(m, fa) \<in> set (subsystem_fans sub)"
    by (rule registered_fan [OF ok(1) fa]) blast
  note known = ok(3) [OF sub(1,2)]
  have valid: "sub_valid sub"
    using known sub(3) by (cases "sub_valid sub") (simp_all add: subsystem_known_def)
  moreover have "fst ` set (subsystem_fans sub) = set (catalog_names cat (sub_name sub))"
    by (rule subsystem_known_valid [OF known valid]) (rule entry_known_D(5))
  moreover have m: "m \<in> fst ` set (subsystem_fans sub)" using sub(3) by (rule rev_image_eqI) simp
  ultimately have "m \<in> set (catalog_names cat (sub_name sub))" by simp
  from that [OF sub(1,2) refl valid this m] show thesis .
qed

section \<open>Steps that keep the registry\<close>

definition same_hardware :: "locl_subsystem \<Rightarrow> locl_subsystem \<Rightarrow> bool" where
  "same_hardware x z \<longleftrightarrow> sub_valid z = sub_valid x \<and> sub_multiplier z = sub_multiplier x \<and>
     sub_numerator z = sub_numerator x"

definition same_daemon :: "('y, 'w) fand \<Rightarrow> ('y, 'w) fand \<Rightarrow> bool" where
  "same_daemon s t \<longleftrightarrow> same_registry s t \<and> yaml_handle t = yaml_handle s \<and>
     (\<forall>a. rel_option same_hardware (subsystem_heap s a) (subsystem_heap t a))"

lemma same_hardware_refl [simp]: "same_hardware x x"
  by (simp add: same_hardware_def)

lemma same_daemon_refl [simp]: "same_daemon s s"
  by (simp add: same_daemon_def option.rel_refl)

lemma same_daemon_idl [simp]: "same_daemon s (s\<lparr>idl_db := db\<rparr>)"
  by (auto simp: same_daemon_def same_registry_def intro: option.rel_refl)

lemma same_hardware_trans: "same_hardware x y \<Longrightarrow> same_hardware y z \<Longrightarrow> same_hardware x z"
  by (simp add: same_hardware_def)

lemma same_daemon_trans:
  assumes "same_daemon s t" and "same_daemon t u"
  shows "same_daemon s u"
proof -
  from assms have hw: "rel_option same_hardware (subsystem_heap s a) (subsystem_heap t a)"
    "rel_option same_hardware (subsystem_heap t a) (subsystem_heap u a)" for a
    by (simp_all add: same_daemon_def)
  have "rel_option same_hardware (subsystem_heap s a) (subsystem_heap u a)" for a
    using hw(1) hw(2) by (rule rel_option_trans) (rule same_hardware_trans)
  moreover have "same_registry s u"
    using assms unfolding same_daemon_def by (blast intro: same_registry_trans)
  ultimately show ?thesis using assms by (simp add: same_daemon_def)
qed

lemma subsystem_known_keep:
  assumes known: "subsystem_known E cat s x"
    and same: "same_subsystem x z" "same_hardware x z"
    and desc: "same_description E (yaml_handle s) (yaml_handle t) (sub_name x)"
    and fans: "\<And>node f. node \<in> set (subsystem_fans x) \<Longrightarrow> fan_heap s (snd node) = Some f \<Longrightarrow>
      \<exists>g. fan_heap t (snd node) = Some g \<and> fan_yaml g = fan_yaml f"
  shows "subsystem_known E cat t z"
proof (cases "sub_valid x")
  case False
  with same known show ?thesis
    by (simp add: subsystem_known_def same_subsystem_def same_hardware_def)
next
  case True
  obtain info frus where k: "entry_known E cat s x info frus"
    using subsystem_known_valid [OF known True] .
  have eqs: "sub_name z = sub_name x" "subsystem_fans z = subsystem_fans x"
    "sub_valid z" "sub_multiplier z = sub_multiplier x" "sub_numerator z = sub_numerator x"
    using same True by (simp_all add: same_subsystem_def same_hardware_def)
  have "\<exists>g. fan_heap t (snd node) = Some g \<and> fan_yaml g \<in> set (all_fans frus)"
    if node: "node \<in> set (subsystem_fans x)" for node
    using entry_known_D(6) [OF k node] fans [OF node] by metis
  with entry_known_D(1-5) [OF k] same_description_described [OF desc]
  have "entry_known E cat t z info frus" by (simp add: entry_known_def eqs)
  then show ?thesis by (auto simp: subsystem_known_def eqs)
qed

lemma same_daemon_subsystem_known:
  assumes st: "same_daemon s t" and same: "same_subsystem x z" "same_hardware x z"
    and known: "subsystem_known E cat s x"
  shows "subsystem_known E cat t z"
proof (rule subsystem_known_keep [OF known same])
  show "same_description E (yaml_handle s) (yaml_handle t) (sub_name x)"
    using st by (simp add: same_daemon_def same_description_def)
  show "\<exists>g. fan_heap t (snd node) = Some g \<and> fan_yaml g = fan_yaml f"
    if "fan_heap s (snd node) = Some f" for node f
    using same_registry_load(2) [OF _ that, of t] st by (auto simp: same_daemon_def same_identity_def)
qed

lemma same_daemon_ok:
  assumes "same_daemon s t" and ok: "daemon_ok E cat s"
  shows "daemon_ok E cat t"
proof -
  from assms(1) have reg: "same_registry s t" by (simp add: same_daemon_def)
  have "subsystem_known E cat t z"
    if n: "(n, a) \<in> set (subsystem_data t)" and z: "subsystem_heap t a = Some z" for n a z
  proof -
    have n': "(n, a) \<in> set (subsystem_data s)" using n same_registry_D(3) [OF reg] by simp
    from registered_subsystem [OF daemon_ok_D(1) [OF ok] n'] obtain x where
      x: "subsystem_heap s a = Some x" by blast
    have "same_subsystem x z" using same_registry_D(1) [OF reg, of a] x z by simp
    moreover have "rel_option same_hardware (subsystem_heap s a) (subsystem_heap t a)"
      using assms(1) by (simp add: same_daemon_def)
    then have "same_hardware x z" using x z by simp
    ultimately show ?thesis
      using same_daemon_subsystem_known [OF assms(1)] daemon_ok_D(3) [OF ok n' x] by blast
  qed
  with same_registry_ok [OF reg] same_registry_D(3) [OF reg] ok show ?thesis
    by (auto simp: daemon_ok_def)
qed

end
