(* ===== verification/Reconfigure.thy ===== *)
theory Reconfigure
  imports Daemon_Inv
begin

text \<open>
  \<open>fand_reconfigure\<close> as a whole: it never faults, keeps the daemon's invariant, and
  afterwards exactly the subsystems of the database that can be managed are registered, each
  with the configuration of its row.
\<close>

section \<open>The rows of new fans\<close>

definition row_names :: "ovsdb \<Rightarrow> string set" where
  "row_names db = row_name ` set (db_fans db)"

lemma update_fan_row_names:
  assumes "\<And>r. row_name (f r) = n"
  shows "row_names (update_fan_row u f db) \<subseteq> insert n (row_names db)"
  using assms by (auto simp: row_names_def update_fan_row_def)

lemma new_fan_row_names:
  assumes "new_fan_row n db = (u, db')"
  shows "row_names db' \<subseteq> insert n (row_names db)"
    and "db_subsystems db' = db_subsystems db" and "db_seqno db' = db_seqno db"
    and "db_daemons db' = db_daemons db"
proof -
  let ?f = "\<lambda>r. r\<lparr>row_name := n,
      row_status := fan_status_enum_to_string FAND_STATUS_UNINITIALIZED,
      row_direction := ''f2b'', row_speed := fan_speed_enum_to_string FAND_SPEED_NORMAL\<rparr>"
  have *: "row_names db' \<subseteq> insert n (row_names db) \<and> db_subsystems db' = db_subsystems db \<and>
      db_seqno db' = db_seqno db \<and> db_daemons db' = db_daemons db"
  proof (cases "lookup_fan db n")
    case (Some v)
    with assms have "db' = update_fan_row v ?f db" by (auto simp: new_fan_row_def)
    with update_fan_row_names [of ?f n v db] show ?thesis by (simp add: update_fan_row_def)
  next
    case None
    obtain v ins where ins: "ovsrec_fan_insert db = (v, ins)" by fastforce
    have names: "row_names ins = insert '''' (row_names db)"
      using ins by (auto simp: ovsrec_fan_insert_def Let_def row_names_def)
    have db': "db' = update_fan_row v ?f ins" using assms None ins by (auto simp: new_fan_row_def)
    have new: "row_uuid r = v" if "r \<in> set (db_fans ins)" "r \<notin> set (db_fans db)" for r
      using ins that by (auto simp: ovsrec_fan_insert_def Let_def)
    have "row_names db' \<subseteq> insert n (row_names db)"
      using new unfolding db' by (auto simp: row_names_def update_fan_row_def)
    moreover have "db_subsystems ins = db_subsystems db" "db_seqno ins = db_seqno db"
      "db_daemons ins = db_daemons db"
      using ins by (auto simp: ovsrec_fan_insert_def Let_def)
    ultimately show ?thesis by (simp add: db' update_fan_row_def)
  qed
  then show "row_names db' \<subseteq> insert n (row_names db)" "db_subsystems db' = db_subsystems db"
    "db_seqno db' = db_seqno db" "db_daemons db' = db_daemons db" by simp_all
qed

lemma add_rows_names:
  assumes "fold (add_row sname) fans (db, arr) = (db', arr')"
  shows "row_names db' \<subseteq> set (fan_names sname fans) \<union> row_names db"
    and "db_subsystems db' = db_subsystems db" and "db_seqno db' = db_seqno db"
    and "db_daemons db' = db_daemons db"
proof -
  have "row_names db' \<subseteq> set (fan_names sname fans) \<union> row_names db \<and>
      db_subsystems db' = db_subsystems db \<and> db_seqno db' = db_seqno db \<and>
      db_daemons db' = db_daemons db"
    using assms
  proof (induction fans arbitrary: db arr)
    case (Cons fan fans)
    obtain u db1 where row: "new_fan_row (full_fan_name sname (yf_name fan)) db = (u, db1)"
      by fastforce
    then have "add_row sname fan (db, arr) = (db1, arr @ [u])" by (simp add: add_row_def)
    with Cons.prems have "fold (add_row sname) fans (db1, arr @ [u]) = (db', arr')" by simp
    from Cons.IH [OF this] new_fan_row_names [OF row] show ?case by auto
  qed simp
  then show "row_names db' \<subseteq> set (fan_names sname fans) \<union> row_names db"
    "db_subsystems db' = db_subsystems db" "db_seqno db' = db_seqno db"
    "db_daemons db' = db_daemons db" by simp_all
qed

lemma rows_for_names:
  "row_names (rows_for sname fans db) \<subseteq> set (fan_names sname fans) \<union> row_names db"
proof -
  obtain view arr where fold: "fold (add_row sname) fans (db, []) = (view, arr)" by fastforce
  from add_rows_names(1) [OF fold] show ?thesis
    by (simp add: rows_for_def fold ovsrec_subsystem_set_fans_def row_names_def)
qed

section \<open>Sweeping\<close>

lemma purge_daemon_ok:
  assumes ok: "daemon_ok E cat s"
  shows "daemon_ok E cat (purge D s)"
proof -
  have "unambiguous cat n \<and> subsystem_known E cat (purge D s) x"
    if n: "(n, a) \<in> set (subsystem_data (purge D s))"
      and x: "subsystem_heap (purge D s) a = Some x" for n a x
  proof -
    have n': "(n, a) \<in> set (subsystem_data s)" and a: "a \<notin> D" and x': "subsystem_heap s a = Some x"
      using n x by (auto simp: purge_def restrict_map_def split: if_splits)
    note reg = daemon_ok_D(1) [OF ok]
    have keep: "fan_heap (purge D s) (snd node) = fan_heap s (snd node)"
      if node: "node \<in> set (subsystem_fans x)" for node
    proof -
      have "owned_by {a} s (snd node)" using owned_nodes [OF reg n' x'] node by blast
      with a have "\<not> owned_by D s (snd node)" by (auto simp: owned_by_def)
      then show ?thesis by (simp add: purge_def restrict_map_def)
    qed
    have "same_description E (yaml_handle s) (yaml_handle (purge D s)) (sub_name x)"
      by (simp add: purge_def same_description_def)
    from subsystem_known_keep [OF daemon_ok_D(3) [OF ok n' x'], of x, OF _ _ this] keep
    have "subsystem_known E cat (purge D s) x" by (simp add: same_subsystem_def)
    with daemon_ok_D(2) [OF ok n'] show ?thesis by simp
  qed
  with purge_ok [OF daemon_ok_D(1) [OF ok]] show ?thesis by (rule daemon_okI)
qed

section \<open>A subsystem that is not registered yet\<close>

text \<open>
  What \<open>get_subsystem\<close> leaves behind for a new name: one more node, a subsystem object that
  is valid exactly if the row is loadable, the objects of the others as they were, and at
  most the rows of the catalogue's fans added to the replica.
\<close>

definition registered_new ::
  "catalog \<Rightarrow> ovsrec_subsystem \<Rightarrow> addr option \<Rightarrow> ('y, 'w) fand \<Rightarrow> ('y, 'w) fand \<Rightarrow> bool" where
  "registered_new cat cfg p s t \<longleftrightarrow>
     subsystem_data t = (cfg_name cfg, next_addr s) # subsystem_data s \<and>
     p = (if loadable cat cfg then Some (next_addr s) else None) \<and>
     (\<forall>b. b \<noteq> next_addr s \<longrightarrow> subsystem_heap t b = subsystem_heap s b) \<and>
     (\<exists>sub. subsystem_heap t (next_addr s) = Some sub \<and> \<not> sub_marked sub \<and>
        sub_valid sub = loadable cat cfg) \<and>
     idl_seqno t = idl_seqno s \<and> cur_hw_set t = cur_hw_set s \<and>
     (if loadable cat cfg then row_names (idl_db t) \<subseteq> set (catalog_names cat (cfg_name cfg)) \<union> row_names (idl_db s)
      else row_names (idl_db t) = row_names (idl_db s))"

lemma names_of_new_fans:
  assumes ok: "daemon_ok E cat s" and new: "n \<notin> fst ` set (subsystem_data s)" and "unambiguous cat n"
  shows "set (catalog_names cat n) \<inter> fst ` set (fan_data s) = {}"
proof (rule ccontr)
  assume "\<not> ?thesis"
  then obtain m where m: "m \<in> set (catalog_names cat n)" "m \<in> fst ` set (fan_data s)" by auto
  obtain n' a sub where n': "(n', a) \<in> set (subsystem_data s)" "subsystem_heap s a = Some sub"
    "m \<in> set (catalog_names cat n')"
    by (rule known_fan_name [OF ok m(2)]) blast
  have "n' \<noteq> n" using n'(1) new by force
  with catalog_names_disjoint [OF assms(3)] m(1) n'(3) show False by blast
qed

lemma not_loadable_load:
  assumes lib: "yaml_library E cat" and "\<not> loadable cat cfg"
    and "load_description E cfg y = (Some info, y')"
  shows "yaml_get_fan_fru_count E y' (cfg_name cfg) \<le> 0"
proof -
  have "cat (cfg_name cfg) = None"
    using assms(2) load_description_parsed(1) [OF lib assms(3)]
    by (cases "cat (cfg_name cfg)") (auto simp: loadable_def)
  with load_description_parsed(2,3) [OF lib assms(3)] show ?thesis by (simp add: parsed_def)
qed

text \<open>The registered nodes of the others stay known, whatever was loaded for the new one.\<close>

lemma others_known:
  assumes ok: "daemon_ok E cat s" and new: "cfg_name cfg \<notin> fst ` set (subsystem_data s)"
    and keep: "keeps_others E (cfg_name cfg) (yaml_handle s) (yaml_handle t)"
    and fans: "\<forall>fa f. fan_heap s fa = Some f \<longrightarrow> fan_heap t fa = Some f"
    and n: "(n, a) \<in> set (subsystem_data s)" and x: "subsystem_heap s a = Some x"
  shows "subsystem_known E cat t x"
proof (rule subsystem_known_keep [OF daemon_ok_D(3) [OF ok n x]])
  have "sub_name x = n"
    using registered_subsystem [OF daemon_ok_D(1) [OF ok] n] x by (metis option.inject)
  moreover have "n \<noteq> cfg_name cfg" using n new by force
  ultimately show "same_description E (yaml_handle s) (yaml_handle t) (sub_name x)"
    using keep by (simp add: keeps_others_def)
qed (use fans in \<open>auto simp: same_subsystem_def\<close>)

lemma daemon_ok_new:
  assumes ok: "daemon_ok E cat s" and new: "cfg_name cfg \<notin> fst ` set (subsystem_data s)"
    and dash: "unambiguous cat (cfg_name cfg)"
    and keep: "keeps_others E (cfg_name cfg) (yaml_handle s) (yaml_handle t)"
    and fans: "\<forall>fa f. fan_heap s fa = Some f \<longrightarrow> fan_heap t fa = Some f"
    and reg: "registry_ok t"
    and data: "subsystem_data t = (cfg_name cfg, next_addr s) # subsystem_data s"
    and heap: "subsystem_heap t = (subsystem_heap s)(next_addr s \<mapsto> z)"
    and z: "subsystem_known E cat t z"
  shows "daemon_ok E cat t"
proof -
  have "unambiguous cat n \<and> subsystem_known E cat t x"
    if n: "(n, a) \<in> set (subsystem_data t)" and x: "subsystem_heap t a = Some x" for n a x
  proof (cases "a = next_addr s")
    case True
    have "(cfg_name cfg, a) \<in> set (subsystem_data t)" using True by (simp add: data)
    with subsystem_addr_inj [OF reg n] have "n = cfg_name cfg" by blast
    with True x z dash heap show ?thesis by simp
  next
    case False
    with n x have "(n, a) \<in> set (subsystem_data s)" "subsystem_heap s a = Some x"
      by (simp_all add: data heap)
    with others_known [OF ok new keep fans] daemon_ok_D(2) [OF ok] show ?thesis by blast
  qed
  with reg show ?thesis by (rule daemon_okI)
qed

lemma get_subsystem_unknown:
  assumes "cfg_name cfg \<notin> fst ` set (subsystem_data s)"
  shows "get_subsystem E cfg s = add_subsystem E cfg s"
  using assms shash_find_data_None [of "hash_bucket E" "subsystem_data s" "cfg_name cfg"]
  by (simp add: get_subsystem_def)

lemma get_subsystem_not_loadable:
  assumes lib: "yaml_library E cat" and ok: "daemon_ok E cat s"
    and new: "cfg_name cfg \<notin> fst ` set (subsystem_data s)" and dash: "unambiguous cat (cfg_name cfg)"
    and no: "\<not> loadable cat cfg"
  obtains t where "get_subsystem E cfg s = Inr (None, t)" and "daemon_ok E cat t"
    and "registered_new cat cfg None s t"
proof -
  obtain p y where load: "load_description E cfg (yaml_handle s) = (p, y)" by fastforce
  note keep = load_description_keeps [OF lib load]
  let ?r = "(register_subsystem cfg s)\<lparr>yaml_handle := y\<rparr>"
  note reg = daemon_ok_D(1) [OF ok] and conclude = that
  have result: thesis
    if get: "get_subsystem E cfg s = Inr (None, t)" and "registry_ok t"
      and t: "t = ?r\<lparr>subsystem_heap := (subsystem_heap s)(next_addr s \<mapsto> z)\<rparr>"
      and z: "\<not> sub_valid z" "\<not> sub_marked z" "subsystem_fans z = []" for t z
  proof (rule conclude [OF get])
    show "daemon_ok E cat t"
      by (rule daemon_ok_new [OF ok new dash _ _ \<open>registry_ok t\<close>, where z = z])
        (use keep z in \<open>simp_all add: t register_subsystem_def subsystem_known_def\<close>)
    show "registered_new cat cfg None s t"
      using no z by (simp add: registered_new_def t register_subsystem_def)
  qed
  show thesis
  proof (cases p)
    case None
    have "?r = ?r\<lparr>subsystem_heap := (subsystem_heap s)(next_addr s \<mapsto> new_subsystem cfg)\<rparr>"
      by (simp add: register_subsystem_def)
    with add_subsystem_failed [OF reg new] load None get_subsystem_unknown [OF new, of E]
    show thesis by (intro result [where t = ?r and z = "new_subsystem cfg"]) simp_all
  next
    case (Some info)
    note none = not_loadable_load [OF lib no load [unfolded Some]]
    let ?z = "(new_subsystem cfg)\<lparr>sub_multiplier := fan_speed_multiplier info,
        sub_numerator := fan_speed_numerator info\<rparr>"
    let ?t = "?r\<lparr>subsystem_heap := (subsystem_heap s)(next_addr s \<mapsto> ?z)\<rparr>"
    have t: "?t = (register_subsystem cfg s)\<lparr>yaml_handle := y,
        subsystem_heap := (subsystem_heap s)(next_addr s \<mapsto> ?z)\<rparr>" by simp
    from add_subsystem_no_frus [OF reg new load [unfolded Some] none t]
      get_subsystem_unknown [OF new, of E]
    show thesis by (intro result [where t = ?t and z = ?z]) simp_all
  qed
qed

lemma list_all2_right_ex:
  "list_all2 P xs ys \<Longrightarrow> y \<in> set ys \<Longrightarrow> \<exists>x \<in> set xs. P x y"
  by (induction rule: list_all2_induct) auto

lemma nodes_of_fans:
  assumes "list_all2 (node_of_fan t sname) (rev fans) nodes" and "node \<in> set nodes"
  shows "\<exists>f. fan_heap t (snd node) = Some f \<and> fan_yaml f \<in> set fans"
  using list_all2_right_ex [OF assms] by (auto simp: node_of_fan_def)

lemma get_subsystem_loadable:
  assumes lib: "yaml_library E cat" and ok: "daemon_ok E cat s"
    and new: "cfg_name cfg \<notin> fst ` set (subsystem_data s)" and dash: "unambiguous cat (cfg_name cfg)"
    and yes: "loadable cat cfg"
  obtains t where "get_subsystem E cfg s = Inr (Some (next_addr s), t)" and "daemon_ok E cat t"
    and "registered_new cat cfg (Some (next_addr s)) s t"
proof -
  let ?n = "cfg_name cfg" and ?a = "next_addr s"
  from yes obtain info frus where entry: "has_directory cfg" "cat ?n = Some (info, frus)"
    by (auto simp: loadable_def)
  obtain y where load: "load_description E cfg (yaml_handle s) = (Some info, y)"
    and desc: "described E y ?n info frus"
    by (rule load_description_loadable [OF lib entry])
  have sound: "frus \<noteq> []" "distinct (fan_names ?n (all_fans frus))"
    using lib entry(2) distinct_fan_names by (auto simp: yaml_library_def sound_entry_def)
  have names: "catalog_names cat ?n = fan_names ?n (all_fans frus)"
    by (simp add: catalog_names_def entry(2))
  have fresh: "set (fan_names ?n (all_fans frus)) \<inter> fst ` set (fan_data s) = {}"
    using names_of_new_fans [OF ok new dash] by (simp add: names)
  let ?r = "(register_subsystem cfg s)\<lparr>yaml_handle := y\<rparr>"
  obtain t where t: "add_subsystem E cfg s = Inr (Some ?a, t)"
    and pop: "populated E ?n ?a info frus (new_subsystem cfg) ?r t"
    by (rule add_subsystem_populated [OF daemon_ok_D(1) [OF ok] new load desc sound fresh])
  define z where "z = the (subsystem_heap t ?a)"
  from pop obtain nodes where nodes: "list_all2 (node_of_fan t ?n) (rev (all_fans frus)) nodes"
    and heap: "subsystem_heap t = (subsystem_heap ?r)(?a \<mapsto> z)"
    and z: "sub_name z = ?n" "sub_multiplier z = fan_speed_multiplier info"
      "sub_numerator z = fan_speed_numerator info" "sub_valid z" "\<not> sub_marked z"
      "subsystem_fans z = nodes"
    by (auto simp: populated_def z_def)
  have t_simps: "registry_ok t" "subsystem_data t = (?n, ?a) # subsystem_data s"
    "yaml_handle t = y" "idl_seqno t = idl_seqno s" "cur_hw_set t = cur_hw_set s"
    "\<forall>fa f. fan_heap s fa = Some f \<longrightarrow> fan_heap t fa = Some f"
    using pop by (simp_all add: populated_def register_subsystem_def)
  have heap': "subsystem_heap t = (subsystem_heap s)(?a \<mapsto> z)"
    using heap by (simp add: register_subsystem_def)
  have node_names: "fst ` set nodes = set (fan_names ?n (all_fans frus))"
    using arg_cong [OF node_of_fan_names [OF nodes], of set] by (simp add: fan_names_def)
  have "entry_known E cat t z info frus"
    using nodes_of_fans [OF nodes] desc
    by (simp add: entry_known_def z entry(2) t_simps(3) names node_names)
  with z(4) have known: "subsystem_known E cat t z" by (auto simp: subsystem_known_def)
  have keep: "keeps_others E ?n (yaml_handle s) (yaml_handle t)"
    using load_description_keeps [OF lib load] by (simp add: t_simps(3))
  show thesis
  proof (rule that)
    show "get_subsystem E cfg s = Inr (Some ?a, t)" using t get_subsystem_unknown [OF new, of E] by simp
    show "daemon_ok E cat t"
      by (rule daemon_ok_new [OF ok new dash keep t_simps(6,1,2) heap' known])
    have "row_names (idl_db t) \<subseteq> set (fan_names ?n (all_fans frus)) \<union> row_names (idl_db s)"
      using pop rows_for_names [of ?n "all_fans frus" "idl_db s"]
      by (auto simp: populated_def register_subsystem_def)
    with yes z(4,5) show "registered_new cat cfg (Some ?a) s t"
      by (simp add: registered_new_def t_simps heap' names)
  qed
qed

lemma get_subsystem_new:
  assumes "yaml_library E cat" and "daemon_ok E cat s"
    and "cfg_name cfg \<notin> fst ` set (subsystem_data s)" and "unambiguous cat (cfg_name cfg)"
  obtains p t where "get_subsystem E cfg s = Inr (p, t)" and "daemon_ok E cat t"
    and "registered_new cat cfg p s t"
  using get_subsystem_loadable [OF assms] get_subsystem_not_loadable [OF assms] by metis

section \<open>One row\<close>

text \<open>A subsystem that holds the configuration of its row and the speed it implies.\<close>

definition configured :: "ovsrec_subsystem \<Rightarrow> locl_subsystem \<Rightarrow> bool" where
  "configured cfg sub \<longleftrightarrow>
     sub_fan_speed sub = highest_sensor (cfg_temp_sensors cfg) \<and>
     sub_fan_speed_override sub =
       fan_speed_string_to_enum (smap_get (cfg_other_config cfg) ''fan_speed_override'') \<and>
     sub_speed sub = effective_speed (sub_fan_speed_override sub) (sub_fan_speed sub)"

lemma take_config_simps [simp]:
  "sub_name (take_config cfg sub) = sub_name sub" "sub_valid (take_config cfg sub) = sub_valid sub"
  "subsystem_fans (take_config cfg sub) = subsystem_fans sub"
  "sub_multiplier (take_config cfg sub) = sub_multiplier sub"
  "sub_numerator (take_config cfg sub) = sub_numerator sub"
  "sub_marked (take_config cfg sub) = sub_marked sub"
  "sub_fan_speed (take_config cfg sub) = highest_sensor (cfg_temp_sensors cfg)"
  "sub_fan_speed_override (take_config cfg sub) =
     fan_speed_string_to_enum (smap_get (cfg_other_config cfg) ''fan_speed_override'')"
  by (simp_all add: take_config_def Let_def)

lemma configure_subsystem_ok:
  assumes ok: "daemon_ok E cat s" and n: "(n, a) \<in> set (subsystem_data s)"
    and x: "subsystem_heap s a = Some x" and valid: "sub_valid x"
  obtains t z where "configure_subsystem E cfg a s = Inr t" and "same_daemon s t"
    and "subsystem_heap t = (subsystem_heap s)(a \<mapsto> z)" and "sub_marked z" and "sub_valid z"
    and "configured cfg z" and "idl_db t = idl_db s" and "idl_seqno t = idl_seqno s"
    and "cur_hw_set t = cur_hw_set s"
proof -
  note reg = daemon_ok_D(1) [OF ok]
  obtain info frus where k: "entry_known E cat s x info frus"
    using subsystem_known_valid [OF daemon_ok_D(3) [OF ok n x] valid] .
  let ?y = "yaml_handle s" and ?n = "sub_name x"
  from entry_known_D(2) [OF k] have info: "yaml_get_fan_info E ?y ?n = Some info"
    and frus: "described_frus E ?y ?n (number_fan_frus info) = Some frus"
    by (auto simp: described_def)
  define x1 where "x1 = take_config cfg x"
  define s1 where "s1 = store_sub a x1 s"
  define speed where "speed = effective_speed (sub_fan_speed_override x1) (sub_fan_speed x1)"
  define x2 where "x2 = x1\<lparr>sub_speed := speed\<rparr>"
  obtain label v where set: "speed_setting info speed = (label, v)" by fastforce
  obtain w ev where s2: "fand_set_fanspeed E a s1 =
      Inr (s1\<lparr>subsystem_heap := (subsystem_heap s1)(a \<mapsto> x2), bus := w, events := ev\<rparr>)"
    using fand_set_fanspeed_eq [of s1 a x1 E info frus speed label v] info frus set
    by (simp add: s1_def x1_def store_sub_def speed_def x2_def)
  let ?s2 = "s1\<lparr>subsystem_heap := (subsystem_heap s1)(a \<mapsto> x2), bus := w, events := ev\<rparr>"
  have fans: "\<forall>node \<in> set (subsystem_fans x2). fan_heap ?s2 (snd node) \<noteq> None"
    using entry_known_D(6) [OF k] by (fastforce simp: x2_def x1_def s1_def store_sub_def)
  obtain w' where s3: "fand_set_fanleds E a ?s2 = Inr (?s2\<lparr>bus := w'\<rparr>)"
    by (rule fand_set_fanleds_total [of ?s2 a x2 E info frus])
      (use fans info frus in \<open>simp_all add: s1_def store_sub_def x2_def x1_def\<close>)
  define z where "z = x2\<lparr>sub_marked := True\<rparr>"
  define t where "t = store_sub a z (?s2\<lparr>bus := w'\<rparr>)"
  have heap: "subsystem_heap t = (subsystem_heap s)(a \<mapsto> z)"
    by (simp add: t_def s1_def store_sub_def)
  have others: "subsystem_data t = subsystem_data s" "fan_data t = fan_data s"
    "next_addr t = next_addr s" "fan_heap t = fan_heap s" "yaml_handle t = yaml_handle s"
    "idl_db t = idl_db s" "idl_seqno t = idl_seqno s" "cur_hw_set t = cur_hw_set s"
    by (simp_all add: t_def s1_def store_sub_def)
  show thesis
  proof (rule that)
    show "configure_subsystem E cfg a s = Inr t"
      using x s2 s3 by (simp add: configure_subsystem_def mark_subsystem_def t_def z_def
          flip: x1_def s1_def)
    have "same_subsystem x z" "same_hardware x z"
      by (simp_all add: same_subsystem_def same_hardware_def z_def x2_def x1_def)
    then show "same_daemon s t"
      using x by (auto simp: same_daemon_def same_registry_def heap others intro: option.rel_refl)
    show "configured cfg z" by (simp add: configured_def z_def x2_def speed_def x1_def)
  qed (use valid heap others in \<open>simp_all add: z_def x2_def x1_def\<close>)
qed

section \<open>The loop over the rows\<close>

text \<open>
  The state of one registered subsystem when the rows \<open>finished\<close> have been visited: it is marked
  exactly if it is valid and its row was visited, and then holds its row's configuration. A
  subsystem that was not visited is one of those registered before, \<open>old\<close>, and valid; a visited
  one is valid exactly if it was registered before or its row is loadable. A registered subsystem
  whose row loses its directory is thus kept: only new subsystems are loaded.
\<close>

definition kept :: "catalog \<Rightarrow> string set \<Rightarrow> ovsrec_subsystem \<Rightarrow> bool" where
  "kept cat old cfg \<longleftrightarrow> loadable cat cfg \<or> cfg_name cfg \<in> old"

definition node_progress ::
  "catalog \<Rightarrow> string set \<Rightarrow> ovsrec_subsystem list \<Rightarrow> string \<Rightarrow> locl_subsystem \<Rightarrow> bool" where
  "node_progress cat old finished n sub \<longleftrightarrow>
     sub_marked sub = (sub_valid sub \<and> n \<in> cfg_name ` set finished) \<and>
     (n \<notin> cfg_name ` set finished \<longrightarrow> sub_valid sub \<and> n \<in> old) \<and>
     (\<forall>cfg \<in> set finished. cfg_name cfg = n \<longrightarrow>
        sub_valid sub = kept cat old cfg \<and> (sub_valid sub \<longrightarrow> configured cfg sub))"

definition progress ::
  "('y, 'w) services \<Rightarrow> catalog \<Rightarrow> string set \<Rightarrow> ovsrec_subsystem list \<Rightarrow> ('y, 'w) fand \<Rightarrow> bool"
where
  "progress E cat old finished s \<longleftrightarrow> daemon_ok E cat s \<and>
     (\<forall>(n, a) \<in> set (subsystem_data s). \<forall>sub. subsystem_heap s a = Some sub \<longrightarrow>
        node_progress cat old finished n sub) \<and>
     cfg_name ` set finished \<subseteq> fst ` set (subsystem_data s) \<and>
     old \<subseteq> fst ` set (subsystem_data s)"

lemma node_progress_other:
  "n \<noteq> cfg_name cfg \<Longrightarrow> node_progress cat old (finished @ [cfg]) n sub = node_progress cat old finished n sub"
  by (simp add: node_progress_def)

lemma progressI:
  assumes "daemon_ok E cat s"
    and "\<And>n a sub. (n, a) \<in> set (subsystem_data s) \<Longrightarrow> subsystem_heap s a = Some sub \<Longrightarrow>
      node_progress cat old finished n sub"
    and "cfg_name ` set finished \<subseteq> fst ` set (subsystem_data s)"
    and "old \<subseteq> fst ` set (subsystem_data s)"
  shows "progress E cat old finished s"
  using assms by (auto simp: progress_def)

lemma progress_D:
  assumes "progress E cat old finished s"
  shows "daemon_ok E cat s"
    and "\<And>n a sub. (n, a) \<in> set (subsystem_data s) \<Longrightarrow> subsystem_heap s a = Some sub \<Longrightarrow>
      node_progress cat old finished n sub"
    and "cfg_name ` set finished \<subseteq> fst ` set (subsystem_data s)"
    and "old \<subseteq> fst ` set (subsystem_data s)"
  using assms by (auto simp: progress_def)

lemma configure_step:
  assumes ok: "daemon_ok E cat u" and n: "(cfg_name cfg, a) \<in> set (subsystem_data u)"
    and x: "subsystem_heap u a = Some x" and valid: "sub_valid x"
    and others: "\<And>m b sub. (m, b) \<in> set (subsystem_data u) \<Longrightarrow> b \<noteq> a \<Longrightarrow>
      subsystem_heap u b = Some sub \<Longrightarrow> node_progress cat old (finished @ [cfg]) m sub"
    and names: "cfg_name ` set finished \<subseteq> fst ` set (subsystem_data u)"
    and old: "old \<subseteq> fst ` set (subsystem_data u)" and kept: "kept cat old cfg"
    and new: "cfg_name cfg \<notin> cfg_name ` set finished"
  obtains t where "configure_subsystem E cfg a u = Inr t" and "progress E cat old (finished @ [cfg]) t"
    and "idl_db t = idl_db u" and "idl_seqno t = idl_seqno u" and "cur_hw_set t = cur_hw_set u"
proof -
  obtain t z where t: "configure_subsystem E cfg a u = Inr t" and same: "same_daemon u t"
    and heap: "subsystem_heap t = (subsystem_heap u)(a \<mapsto> z)"
    and z: "sub_marked z" "sub_valid z" "configured cfg z"
    and rest: "idl_db t = idl_db u" "idl_seqno t = idl_seqno u" "cur_hw_set t = cur_hw_set u"
    by (rule configure_subsystem_ok [OF ok n x valid])
  have data: "subsystem_data t = subsystem_data u"
    using same by (simp add: same_daemon_def same_registry_D(3))
  have "progress E cat old (finished @ [cfg]) t"
  proof (rule progressI)
    show "daemon_ok E cat t" by (rule same_daemon_ok [OF same ok])
    show "cfg_name ` set (finished @ [cfg]) \<subseteq> fst ` set (subsystem_data t)"
      using names rev_image_eqI [OF n, of "cfg_name cfg" fst] by (simp add: data)
    show "old \<subseteq> fst ` set (subsystem_data t)" using old by (simp add: data)
    fix m b sub
    assume m: "(m, b) \<in> set (subsystem_data t)" and sub: "subsystem_heap t b = Some sub"
    show "node_progress cat old (finished @ [cfg]) m sub"
    proof (cases "b = a")
      case True
      have "m = cfg_name cfg"
        using subsystem_addr_inj [OF daemon_ok_D(1) [OF ok]] m n True by (metis data)
      moreover have "\<forall>c \<in> set finished. cfg_name c \<noteq> cfg_name cfg"
        using new by (metis image_eqI)
      ultimately show ?thesis using True sub heap z kept by (simp add: node_progress_def)
    next
      case False
      with m sub others show ?thesis by (simp add: data heap)
    qed
  qed
  with t rest that show thesis by blast
qed

text \<open>One row: registered already, or new.\<close>

lemma reconfigure_registered:
  assumes prog: "progress E cat old finished s" and n: "cfg_name cfg \<in> fst ` set (subsystem_data s)"
    and new: "cfg_name cfg \<notin> cfg_name ` set finished"
  obtains t where "reconfigure_subsystem E cfg s = Inr t"
    and "progress E cat old (finished @ [cfg]) t"
    and "idl_db t = idl_db s" and "idl_seqno t = idl_seqno s" and "cur_hw_set t = cur_hw_set s"
proof -
  note ok = progress_D(1) [OF prog]
  note reg = daemon_ok_D(1) [OF ok]
  from n obtain a where a: "(cfg_name cfg, a) \<in> set (subsystem_data s)" by auto
  obtain x where x: "subsystem_heap s a = Some x" using registered_subsystem [OF reg a] .
  have valid: "sub_valid x" and kept: "kept cat old cfg"
    using progress_D(2) [OF prog a x] new by (simp_all add: node_progress_def kept_def)
  have get: "get_subsystem E cfg s = Inr (Some a, s)"
    using shash_find_unique [OF registry_ok_D(1) [OF reg] a, of "hash_bucket E"] x valid
    by (simp add: get_subsystem_def shash_find_data_def)
  have others: "node_progress cat old (finished @ [cfg]) m sub"
    if m: "(m, b) \<in> set (subsystem_data s)" and b: "b \<noteq> a" and sub: "subsystem_heap s b = Some sub"
    for m b sub
  proof -
    have "m \<noteq> cfg_name cfg"
      using m a b registry_ok_D(1) [OF reg] by (metis eq_key_imp_eq_value)
    with progress_D(2) [OF prog m sub] show ?thesis by (simp add: node_progress_other)
  qed
  obtain t where "configure_subsystem E cfg a s = Inr t" "progress E cat old (finished @ [cfg]) t"
    "idl_db t = idl_db s" "idl_seqno t = idl_seqno s" "cur_hw_set t = cur_hw_set s"
    by (rule configure_step [OF ok a x valid others progress_D(3,4) [OF prog] kept new])
  with get that show thesis by (simp add: reconfigure_subsystem_def)
qed

lemma reconfigure_new:
  assumes lib: "yaml_library E cat" and prog: "progress E cat old finished s"
    and n: "cfg_name cfg \<notin> fst ` set (subsystem_data s)" and dash: "unambiguous cat (cfg_name cfg)"
    and new: "cfg_name cfg \<notin> cfg_name ` set finished"
  obtains t where "reconfigure_subsystem E cfg s = Inr t"
    and "progress E cat old (finished @ [cfg]) t"
    and "if loadable cat cfg
      then row_names (idl_db t) \<subseteq> set (catalog_names cat (cfg_name cfg)) \<union> row_names (idl_db s)
      else row_names (idl_db t) = row_names (idl_db s)"
    and "idl_seqno t = idl_seqno s" and "cur_hw_set t = cur_hw_set s"
proof -
  note ok = progress_D(1) [OF prog]
  obtain p u where get: "get_subsystem E cfg s = Inr (p, u)" and u: "daemon_ok E cat u"
    and r: "registered_new cat cfg p s u"
    by (rule get_subsystem_new [OF lib ok n dash])
  from r have data: "subsystem_data u = (cfg_name cfg, next_addr s) # subsystem_data s"
    and p: "p = (if loadable cat cfg then Some (next_addr s) else None)"
    and heap: "\<And>b. b \<noteq> next_addr s \<Longrightarrow> subsystem_heap u b = subsystem_heap s b"
    and outer: "idl_seqno u = idl_seqno s" "cur_hw_set u = cur_hw_set s"
    and rows: "if loadable cat cfg
      then row_names (idl_db u) \<subseteq> set (catalog_names cat (cfg_name cfg)) \<union> row_names (idl_db s)
      else row_names (idl_db u) = row_names (idl_db s)"
    by (simp_all add: registered_new_def)
  from r obtain x where x: "subsystem_heap u (next_addr s) = Some x" "\<not> sub_marked x"
    "sub_valid x = loadable cat cfg"
    by (auto simp: registered_new_def)
  have a: "(cfg_name cfg, next_addr s) \<in> set (subsystem_data u)" by (simp add: data)
  have names: "cfg_name ` set finished \<subseteq> fst ` set (subsystem_data u)"
    using progress_D(3) [OF prog] by (auto simp: data)
  have old: "old \<subseteq> fst ` set (subsystem_data u)" and not_old: "cfg_name cfg \<notin> old"
    using progress_D(4) [OF prog] n by (auto simp: data)
  have others: "node_progress cat old (finished @ [cfg]) m sub"
    if m: "(m, b) \<in> set (subsystem_data u)" and b: "b \<noteq> next_addr s"
      and sub: "subsystem_heap u b = Some sub" for m b sub
  proof -
    have m': "(m, b) \<in> set (subsystem_data s)" using m b by (simp add: data)
    then have "m \<noteq> cfg_name cfg" using n by force
    with progress_D(2) [OF prog m'] sub heap [OF b] show ?thesis by (simp add: node_progress_other)
  qed
  show thesis
  proof (cases "loadable cat cfg")
    case True
    obtain t where t: "configure_subsystem E cfg (next_addr s) u = Inr t"
      "progress E cat old (finished @ [cfg]) t"
      "idl_db t = idl_db u" "idl_seqno t = idl_seqno u" "cur_hw_set t = cur_hw_set u"
      by (rule configure_step [OF u a x(1) _ others names old _ new]) (use x True in \<open>auto simp: kept_def\<close>)
    with get p True rows outer that show thesis by (simp add: reconfigure_subsystem_def)
  next
    case False
    have "progress E cat old (finished @ [cfg]) u"
    proof (rule progressI [OF u])
      show "cfg_name ` set (finished @ [cfg]) \<subseteq> fst ` set (subsystem_data u)"
        using names by (auto simp: data)
      show "old \<subseteq> fst ` set (subsystem_data u)" by (rule old)
      fix m b sub
      assume m: "(m, b) \<in> set (subsystem_data u)" and sub: "subsystem_heap u b = Some sub"
      show "node_progress cat old (finished @ [cfg]) m sub"
      proof (cases "b = next_addr s")
        case True
        have "m = cfg_name cfg"
          using subsystem_addr_inj [OF daemon_ok_D(1) [OF u]] m a True by metis
        moreover have "\<forall>c \<in> set finished. cfg_name c \<noteq> cfg_name cfg"
          using new by (metis image_eqI)
        ultimately show ?thesis using True sub x False not_old
          by (simp add: node_progress_def kept_def)
      qed (use others m sub in blast)
    qed
    with get p False rows outer that show thesis by (simp add: reconfigure_subsystem_def)
  qed
qed

text \<open>The names of the fans that the rows of the database stand for.\<close>

definition managed_names :: "catalog \<Rightarrow> ovsrec_subsystem list \<Rightarrow> string set" where
  "managed_names cat cfgs =
     (\<Union>cfg \<in> {cfg \<in> set cfgs. loadable cat cfg}. set (catalog_names cat (cfg_name cfg)))"

lemma reconfigure_loop:
  assumes lib: "yaml_library E cat" and "progress E cat old finished s"
    and "distinct (map cfg_name (finished @ cfgs))" and "\<forall>cfg \<in> set cfgs. unambiguous cat (cfg_name cfg)"
  shows "\<exists>t. for_each (reconfigure_subsystem E) cfgs s = Inr t \<and>
    progress E cat old (finished @ cfgs) t \<and>
    row_names (idl_db t) \<subseteq> managed_names cat cfgs \<union> row_names (idl_db s) \<and>
    idl_seqno t = idl_seqno s \<and> cur_hw_set t = cur_hw_set s"
  using assms(2-)
proof (induction cfgs arbitrary: finished s)
  case (Cons cfg cfgs)
  have new: "cfg_name cfg \<notin> cfg_name ` set finished" and dash: "unambiguous cat (cfg_name cfg)"
    using Cons.prems by auto
  have "\<exists>u. reconfigure_subsystem E cfg s = Inr u \<and> progress E cat old (finished @ [cfg]) u \<and>
      row_names (idl_db u) \<subseteq> managed_names cat [cfg] \<union> row_names (idl_db s) \<and>
      idl_seqno u = idl_seqno s \<and> cur_hw_set u = cur_hw_set s"
  proof (cases "cfg_name cfg \<in> fst ` set (subsystem_data s)")
    case True
    obtain u where "reconfigure_subsystem E cfg s = Inr u" "progress E cat old (finished @ [cfg]) u"
      "idl_db u = idl_db s" "idl_seqno u = idl_seqno s" "cur_hw_set u = cur_hw_set s"
      by (rule reconfigure_registered [OF Cons.prems(1) True new])
    then show ?thesis by auto
  next
    case False
    obtain u where "reconfigure_subsystem E cfg s = Inr u" "progress E cat old (finished @ [cfg]) u"
      and rows: "if loadable cat cfg
      then row_names (idl_db u) \<subseteq> set (catalog_names cat (cfg_name cfg)) \<union> row_names (idl_db s)
      else row_names (idl_db u) = row_names (idl_db s)"
      and "idl_seqno u = idl_seqno s" "cur_hw_set u = cur_hw_set s"
      by (rule reconfigure_new [OF lib Cons.prems(1) False dash new])
    moreover have "row_names (idl_db u) \<subseteq> managed_names cat [cfg] \<union> row_names (idl_db s)"
      using rows by (auto simp: managed_names_def split: if_splits)
    ultimately show ?thesis by blast
  qed
  then obtain u where u: "reconfigure_subsystem E cfg s = Inr u"
    and prog: "progress E cat old (finished @ [cfg]) u"
    and rows: "row_names (idl_db u) \<subseteq> managed_names cat [cfg] \<union> row_names (idl_db s)"
    and eqs: "idl_seqno u = idl_seqno s" "cur_hw_set u = cur_hw_set s" by blast
  have "distinct (map cfg_name ((finished @ [cfg]) @ cfgs))" "\<forall>c \<in> set cfgs. unambiguous cat (cfg_name c)"
    using Cons.prems by simp_all
  from Cons.IH [OF prog this] obtain t where t: "for_each (reconfigure_subsystem E) cfgs u = Inr t"
    "progress E cat old ((finished @ [cfg]) @ cfgs) t"
    "row_names (idl_db t) \<subseteq> managed_names cat cfgs \<union> row_names (idl_db u)"
    "idl_seqno t = idl_seqno u" "cur_hw_set t = cur_hw_set u" by blast
  have "managed_names cat (cfg # cfgs) = managed_names cat [cfg] \<union> managed_names cat cfgs"
    by (auto simp: managed_names_def)
  with t rows have "row_names (idl_db t) \<subseteq> managed_names cat (cfg # cfgs) \<union> row_names (idl_db s)"
    by blast
  with t u eqs show ?case by simp
qed simp

section \<open>The whole function\<close>

text \<open>
  Between two iterations every registered subsystem is valid: the ones that are not are
  never marked, so the sweep at the end takes them away.
\<close>

definition settled :: "('y, 'w) services \<Rightarrow> catalog \<Rightarrow> ('y, 'w) fand \<Rightarrow> bool" where
  "settled E cat s \<longleftrightarrow> daemon_ok E cat s \<and>
     (\<forall>(n, a) \<in> set (subsystem_data s). \<forall>sub. subsystem_heap s a = Some sub \<longrightarrow> sub_valid sub)"

text \<open>The registry reflects the rows \<open>cfgs\<close> of the database.\<close>

definition reflects ::
  "catalog \<Rightarrow> string set \<Rightarrow> ovsrec_subsystem list \<Rightarrow> ('y, 'w) fand \<Rightarrow> bool" where
  "reflects cat old cfgs s \<longleftrightarrow>
     fst ` set (subsystem_data s) = cfg_name ` {cfg \<in> set cfgs. kept cat old cfg} \<and>
     (\<forall>(n, a) \<in> set (subsystem_data s). \<exists>sub. subsystem_heap s a = Some sub \<and> sub_valid sub \<and>
        sub_marked sub \<and> (\<forall>cfg \<in> set cfgs. cfg_name cfg = n \<longrightarrow> configured cfg sub))"

lemma unmarked_progress:
  assumes "settled E cat s"
    and "t = s\<lparr>subsystem_heap := (\<lambda>a. map_option (sub_marked_update (\<lambda>_. False)) (subsystem_heap s a))\<rparr>"
  shows "progress E cat (fst ` set (subsystem_data s)) [] t"
proof (rule progressI)
  have "same_daemon s t"
    using unmark_same_registry [of s] unfolding assms(2) same_daemon_def
    by (simp add: option.rel_map same_hardware_def option.rel_refl_strong)
  then show "daemon_ok E cat t"
    using assms(1) by (simp add: settled_def same_daemon_ok)
  show "node_progress cat (fst ` set (subsystem_data s)) [] n sub"
    if n: "(n, a) \<in> set (subsystem_data t)" and sub: "subsystem_heap t a = Some sub" for n a sub
    using assms(1) n sub rev_image_eqI [of "(n, a)" "set (subsystem_data s)" n fst]
    by (auto simp: settled_def node_progress_def assms(2))
qed (simp_all add: assms(2))

lemma sweep_reflects:
  assumes prog: "progress E cat old cfgs u" and t: "t = purge (unmarked u) u"
  shows "settled E cat t" and "reflects cat old cfgs t"
proof -
  note ok = progress_D(1) [OF prog]
  have ok_t: "daemon_ok E cat t" unfolding t by (rule purge_daemon_ok [OF ok])
  have node: "\<exists>sub. subsystem_heap t a = Some sub \<and> sub_marked sub \<and> node_progress cat old cfgs n sub"
    if n: "(n, a) \<in> set (subsystem_data t)" for n a
  proof -
    have n': "(n, a) \<in> set (subsystem_data u)" and a: "a \<notin> unmarked u"
      using n by (auto simp: t purge_def)
    obtain sub where sub: "subsystem_heap u a = Some sub"
      using registered_subsystem [OF daemon_ok_D(1) [OF ok] n'] .
    with a progress_D(2) [OF prog n' sub] show ?thesis by (auto simp: unmarked_def t purge_def)
  qed
  have valid: "sub_valid sub \<and> n \<in> cfg_name ` set cfgs" if "sub_marked sub" "node_progress cat old cfgs n sub" for n sub
    using that by (simp add: node_progress_def)
  show "settled E cat t"
    using ok_t node valid by (fastforce simp: settled_def)
  have "cfg_name cfg \<in> fst ` set (subsystem_data t)" if cfg: "cfg \<in> set cfgs" "kept cat old cfg" for cfg
  proof -
    have "cfg_name cfg \<in> fst ` set (subsystem_data u)" using progress_D(3) [OF prog] cfg(1) by blast
    then obtain a where a: "(cfg_name cfg, a) \<in> set (subsystem_data u)" by auto
    obtain sub where sub: "subsystem_heap u a = Some sub"
      using registered_subsystem [OF daemon_ok_D(1) [OF ok] a] .
    have "sub_marked sub"
      using progress_D(2) [OF prog a sub] cfg by (auto simp: node_progress_def)
    with a sub have "(cfg_name cfg, a) \<in> set (subsystem_data t)"
      by (simp add: t purge_def unmarked_def)
    then show ?thesis by (rule rev_image_eqI) simp
  qed
  moreover have "n \<in> cfg_name ` {cfg \<in> set cfgs. kept cat old cfg}"
    if n: "(n, a) \<in> set (subsystem_data t)" for n a
  proof -
    obtain sub where sub: "sub_marked sub" "node_progress cat old cfgs n sub" using node [OF n] by blast
    from valid [OF this] obtain cfg where "cfg \<in> set cfgs" "cfg_name cfg = n" "sub_valid sub" by auto
    with sub(2) show ?thesis by (auto simp: node_progress_def)
  qed
  ultimately have names: "fst ` set (subsystem_data t) = cfg_name ` {cfg \<in> set cfgs. kept cat old cfg}"
    by (auto simp: image_iff)
  have "\<exists>sub. subsystem_heap t a = Some sub \<and> sub_valid sub \<and> sub_marked sub \<and>
      (\<forall>cfg \<in> set cfgs. cfg_name cfg = n \<longrightarrow> configured cfg sub)"
    if "(n, a) \<in> set (subsystem_data t)" for n a
    using node [OF that] by (auto simp: node_progress_def)
  with names show "reflects cat old cfgs t" by (auto simp: reflects_def)
qed

lemma reflects_D:
  assumes "reflects cat old cfgs s"
  shows "fst ` set (subsystem_data s) = cfg_name ` {cfg \<in> set cfgs. kept cat old cfg}"
    and "fst ` set (subsystem_data s) \<subseteq> cfg_name ` set cfgs"
    and "\<And>cfg. cfg \<in> set cfgs \<Longrightarrow> loadable cat cfg \<Longrightarrow> \<exists>a. (cfg_name cfg, a) \<in> set (subsystem_data s)"
    and "\<And>n a. (n, a) \<in> set (subsystem_data s) \<Longrightarrow> \<exists>sub. subsystem_heap s a = Some sub \<and>
      sub_valid sub \<and> sub_marked sub \<and> (\<forall>cfg \<in> set cfgs. cfg_name cfg = n \<longrightarrow> configured cfg sub)"
proof -
  show names: "fst ` set (subsystem_data s) = cfg_name ` {cfg \<in> set cfgs. kept cat old cfg}"
    using assms by (simp add: reflects_def)
  then show "fst ` set (subsystem_data s) \<subseteq> cfg_name ` set cfgs" by auto
  show "\<exists>a. (cfg_name cfg, a) \<in> set (subsystem_data s)" if "cfg \<in> set cfgs" "loadable cat cfg" for cfg
  proof -
    have "cfg_name cfg \<in> fst ` set (subsystem_data s)"
      using that unfolding names kept_def by blast
    then show ?thesis by auto
  qed
qed (use assms in \<open>auto simp: reflects_def\<close>)

lemma managed_fans:
  assumes "settled E cat t" and "reflects cat old cfgs t"
  shows "managed_names cat cfgs \<subseteq> fst ` set (fan_data t)"
proof
  fix m assume "m \<in> managed_names cat cfgs"
  then obtain cfg where cfg: "cfg \<in> set cfgs" "loadable cat cfg"
    and m: "m \<in> set (catalog_names cat (cfg_name cfg))"
    by (auto simp: managed_names_def)
  have ok: "daemon_ok E cat t" using assms(1) by (simp add: settled_def)
  obtain a where a: "(cfg_name cfg, a) \<in> set (subsystem_data t)"
    using reflects_D(3) [OF assms(2) cfg] by blast
  obtain sub where sub: "subsystem_heap t a = Some sub" "sub_name sub = cfg_name cfg"
    "set (subsystem_fans sub) \<subseteq> set (fan_data t)"
    using registered_subsystem [OF daemon_ok_D(1) [OF ok] a] by metis
  have valid: "sub_valid sub" using assms(1) a sub(1) by (auto simp: settled_def)
  obtain info frus where "entry_known E cat t sub info frus"
    using subsystem_known_valid [OF daemon_ok_D(3) [OF ok a sub(1)] valid] .
  from entry_known_D(5) [OF this] m sub(2) have "m \<in> fst ` set (subsystem_fans sub)" by simp
  with sub(3) show "m \<in> fst ` set (fan_data t)" by blast
qed

lemma fand_reconfigure_ok:
  assumes lib: "yaml_library E cat" and ok: "settled E cat s"
    and cfgs: "distinct (map cfg_name (db_subsystems (idl_db s)))"
      "\<forall>cfg \<in> set (db_subsystems (idl_db s)). unambiguous cat (cfg_name cfg)"
    and seqno: "db_seqno (idl_db s) \<noteq> idl_seqno s"
  obtains t where "fand_reconfigure E s = Inr t" and "settled E cat t"
    and "reflects cat (fst ` set (subsystem_data s)) (db_subsystems (idl_db s)) t"
    and "row_names (idl_db t) \<subseteq> managed_names cat (db_subsystems (idl_db s)) \<union> row_names (idl_db s)"
    and "managed_names cat (db_subsystems (idl_db s)) \<subseteq> fst ` set (fan_data t)"
    and "idl_seqno t = db_seqno (idl_db s)" and "cur_hw_set t = cur_hw_set s"
proof -
  let ?cfgs = "db_subsystems (idl_db s)"
  define s1 where "s1 = s\<lparr>idl_seqno := db_seqno (idl_db s)\<rparr>"
  define s2 where "s2 = s1\<lparr>subsystem_heap :=
    (\<lambda>a. map_option (sub_marked_update (\<lambda>_. False)) (subsystem_heap s1 a))\<rparr>"
  have "same_daemon s s1"
    by (auto simp: s1_def same_daemon_def same_registry_def intro: option.rel_refl)
  with ok have "settled E cat s1"
    using same_daemon_ok by (auto simp: settled_def s1_def)
  then have prog: "progress E cat (fst ` set (subsystem_data s)) [] s2"
    using unmarked_progress [of E cat s1 s2] by (simp add: s2_def s1_def)
  have unmark: "fand_unmark_subsystems E s1 = Inr s2"
    using fand_unmark_subsystems_eq [of s1 E] ok
    by (simp add: s2_def s1_def settled_def daemon_ok_def)
  obtain u where u: "for_each (reconfigure_subsystem E) ?cfgs s2 = Inr u"
    and prog_u: "progress E cat (fst ` set (subsystem_data s)) ?cfgs u"
    and rows: "row_names (idl_db u) \<subseteq> managed_names cat ?cfgs \<union> row_names (idl_db s2)"
    and outer: "idl_seqno u = idl_seqno s2" "cur_hw_set u = cur_hw_set s2"
    using reconfigure_loop [OF lib prog, of ?cfgs] cfgs by auto
  define t where "t = purge (unmarked u) u"
  note after = sweep_reflects [OF prog_u t_def]
  show thesis
  proof (rule that)
    have db: "db_subsystems (idl_db s2) = ?cfgs" by (simp add: s2_def s1_def)
    have "fand_remove_unmarked_subsystems E u = Inr t"
      using fand_remove_unmarked_subsystems_eq [OF daemon_ok_D(1) [OF progress_D(1) [OF prog_u]]]
      by (simp add: t_def)
    with unmark u seqno db show "fand_reconfigure E s = Inr t"
      by (simp add: fand_reconfigure_def Let_def flip: s1_def)
    show "managed_names cat ?cfgs \<subseteq> fst ` set (fan_data t)" by (rule managed_fans [OF after])
  qed (use after rows outer in \<open>auto simp: t_def purge_def s2_def s1_def\<close>)
qed

section \<open>Properties\<close>

text \<open>C3: Reconfiguration. With a library that keeps its contract, subsystem rows of unique
  names whose fans have joined names of their own, and a new sequence number,
  \<open>fand_reconfigure\<close> does not fault and ends in a state where every registered subsystem is valid
  and satisfies the invariant. The registered subsystems are exactly those of the rows that the
  catalogue describes or that were registered before, and each holds the configuration of its row:
  the greatest sensor demand, the user's override, and the speed in force that follows from the
  two.\<close>

theorem fand_reconfigure_reflects_database:
  assumes "yaml_library E cat" and "settled E cat s"
    and "cfgs = db_subsystems (idl_db s)" and "distinct (map cfg_name cfgs)"
    and "\<forall>cfg \<in> set cfgs. unambiguous cat (cfg_name cfg)" and "db_seqno (idl_db s) \<noteq> idl_seqno s"
  shows "\<exists>t. fand_reconfigure E s = Inr t \<and> settled E cat t \<and>
    idl_seqno t = db_seqno (idl_db s) \<and>
    fst ` set (subsystem_data t) = cfg_name ` {cfg \<in> set cfgs. loadable cat cfg \<or>
      cfg_name cfg \<in> fst ` set (subsystem_data s)} \<and>
    (\<forall>cfg \<in> set cfgs. \<forall>a sub. (cfg_name cfg, a) \<in> set (subsystem_data t) \<longrightarrow>
       subsystem_heap t a = Some sub \<longrightarrow> configured cfg sub)"
proof -
  obtain t where t: "fand_reconfigure E s = Inr t" "settled E cat t"
    "reflects cat (fst ` set (subsystem_data s)) cfgs t"
    "idl_seqno t = db_seqno (idl_db s)"
    by (rule fand_reconfigure_ok [OF assms(1,2) assms(4-6) [unfolded assms(3)]])
      (simp add: assms(3))
  have "configured cfg sub"
    if "cfg \<in> set cfgs" "(cfg_name cfg, a) \<in> set (subsystem_data t)" "subsystem_heap t a = Some sub"
    for cfg a sub
    using reflects_D(4) [OF t(3) that(2)] that by auto
  moreover note reflects_D(1) [OF t(3)]
  ultimately show ?thesis using t unfolding kept_def by blast
qed

lemma settled_init [simp]: "settled E cat (fand_init E' w db)"
  by (simp add: settled_def daemon_ok_def registry_ok_def fand_init_def init_subsystems_def)

lemma settled_idl [simp]: "settled E cat (s\<lparr>idl_db := db\<rparr>) = settled E cat s"
proof -
  have "entry_known E cat (s\<lparr>idl_db := db\<rparr>) = entry_known E cat s"
    by (simp add: fun_eq_iff entry_known_def)
  then show ?thesis by (simp add: settled_def daemon_ok_def subsystem_known_def)
qed

definition bench_start :: "(string list, bench_dev) fand" where
  "bench_start = (fand_init bench bench_bus empty_db)\<lparr>idl_db := bench_db\<rparr>"

lemma bench_start_simps [simp]:
  "settled bench bench_cat bench_start" "idl_db bench_start = bench_db" "idl_seqno bench_start = 0"
  by (simp_all add: bench_start_def) (simp add: fand_init_def init_subsystems_def empty_db_def)

theorem fand_reconfigure_reflects_database_witness:
  "\<exists>t. fand_reconfigure bench bench_start = Inr t \<and> fst ` set (subsystem_data t) = {''base''} \<and>
     idl_seqno t = 7"
proof -
  have "cfg_name ` {cfg \<in> set [bench_cfg]. loadable bench_cat cfg \<or>
      cfg_name cfg \<in> fst ` set (subsystem_data bench_start)} = {''base''}" by force
  then show ?thesis
    using fand_reconfigure_reflects_database [of bench bench_cat bench_start "[bench_cfg]"] by auto
qed

text \<open>C6: Overheating. Whatever the user's override says, after a reconfiguration the speed in
  force of a managed subsystem with a sensor that asks for \<open>max\<close> is \<open>MAX\<close>.\<close>

theorem overheating_forces_max:
  assumes "yaml_library E cat" and "settled E cat s"
    and "distinct (map cfg_name (db_subsystems (idl_db s)))"
    and "\<forall>cfg \<in> set (db_subsystems (idl_db s)). unambiguous cat (cfg_name cfg)"
    and "db_seqno (idl_db s) \<noteq> idl_seqno s"
    and "cfg \<in> set (db_subsystems (idl_db s))" and "loadable cat cfg"
    and "''max'' \<in> set (cfg_temp_sensors cfg)"
  shows "\<exists>t a sub. fand_reconfigure E s = Inr t \<and> (cfg_name cfg, a) \<in> set (subsystem_data t) \<and>
    subsystem_heap t a = Some sub \<and> sub_speed sub = FAND_SPEED_MAX"
proof -
  obtain t where t: "fand_reconfigure E s = Inr t"
    and r: "reflects cat (fst ` set (subsystem_data s)) (db_subsystems (idl_db s)) t"
    by (rule fand_reconfigure_ok [OF assms(1-5)])
  obtain a where a: "(cfg_name cfg, a) \<in> set (subsystem_data t)"
    using reflects_D(3) [OF r assms(6,7)] by blast
  obtain sub where sub: "subsystem_heap t a = Some sub" "configured cfg sub"
    using reflects_D(4) [OF r a] assms(6) by blast
  then have "sub_speed sub = FAND_SPEED_MAX"
    using highest_sensor_at_max [OF assms(8)] by (simp add: configured_def effective_speed_eq)
  with t a sub(1) show ?thesis by blast
qed

text \<open>The bench with one sensor at \<open>max\<close> and an override of \<open>slow\<close>.\<close>

definition bench_hot :: "(string list, bench_dev) fand" where
  "bench_hot = bench_start\<lparr>idl_db := bench_db\<lparr>db_subsystems := [bench_cfg
     \<lparr>cfg_temp_sensors := [''normal'', ''max''], cfg_other_config := [''fan_speed_override'' \<mapsto> ''slow'']\<rparr>]\<rparr>\<rparr>"

theorem overheating_forces_max_witness:
  "\<exists>t a sub. fand_reconfigure bench bench_hot = Inr t \<and> (''base'', a) \<in> set (subsystem_data t) \<and>
     subsystem_heap t a = Some sub \<and> sub_speed sub = FAND_SPEED_MAX"
  using overheating_forces_max [of bench bench_cat bench_hot "bench_cfg
     \<lparr>cfg_temp_sensors := [''normal'', ''max''], cfg_other_config := [''fan_speed_override'' \<mapsto> ''slow'']\<rparr>"]
  by (simp add: bench_hot_def)

end
