(* ===== verification/Reading.thy ===== *)
theory Reading
  imports Reconfigure
begin

text \<open>
  \<open>fand_read_status\<close> of \<open>src/fand.c\<close>: reading the fans cannot fault in a daemon that
  satisfies its invariant, and publishing faults exactly when the database has a fan row that
  the daemon does not know. What is published is what was read.
\<close>

section \<open>Reading one fan\<close>

lemma fand_read_direction_total:
  assumes "fan_fru_get E y name fan = Inr p" and "yaml_get_fan_info E y name = Some info"
  obtains d w' where "fand_read_direction E y name fan w = Inr (d, w')"
proof -
  have one: "\<exists>d w'. fand_read_fan_fru_direction E y name fru (Some info) w = Inr (d, w')" for fru
    by (simp add: fand_read_fan_fru_direction_def split: prod.splits)
  show thesis
  proof (cases p)
    case None
    with assms(1) that show thesis by (simp add: fand_read_direction_def)
  next
    case (Some fru)
    obtain d w' where "fand_read_fan_fru_direction E y name fru (Some info) w = Inr (d, w')"
      using one by blast
    with assms Some that show thesis
      by (cases "fru_fan_direction_detect fru") (simp_all add: fand_read_direction_def)
  qed
qed

lemma fand_read_present_total:
  obtains present w' where "fand_read_present E y name (Some fru) w = Inr (present, w')"
proof -
  have "\<exists>r. fand_read_present E y name (Some fru) w = Inr r"
    by (auto simp: fand_read_present_def split: option.splits prod.splits)
  with that show thesis by auto
qed

lemma fand_read_fan_status_total:
  assumes bytes: "byte_registers E"
    and f: "fan_heap s fa = Some f" and x: "subsystem_heap s (fan_subsystem f) = Some sub"
    and desc: "described E (yaml_handle s) (sub_name sub) info frus"
    and fan: "fan_yaml f \<in> set (all_fans frus)" and mult: "\<bar>sint (sub_multiplier sub)\<bar> \<le> 32768"
  obtains t where "fand_read_fan_status E fa s = Inr t"
proof -
  let ?y = "yaml_handle s" and ?n = "sub_name sub" and ?fan = "fan_yaml f"
  from desc have info: "yaml_get_fan_info E ?y ?n = Some info"
    and frus: "described_frus E ?y ?n (nat (yaml_get_fan_fru_count E ?y ?n)) = Some frus"
    by (simp_all add: described_def)
  have "fru_of_fan frus ?fan \<noteq> None" using fan by (auto simp: fru_of_fan_def find_None_iff)
  then obtain fru where fru: "fan_fru_get E ?y ?n ?fan = Inr (Some fru)"
    using fan_fru_get_eq [OF frus, of ?fan] by auto
  obtain d w1 where dir: "fand_read_direction E ?y ?n ?fan (bus s) = Inr (d, w1)"
    by (rule fand_read_direction_total [OF fru info])
  obtain present w2 where present: "fand_read_present E ?y ?n (Some fru) w1 = Inr (present, w2)"
    by (rule fand_read_present_total)
  obtain rpm w3 where rpm: "fand_read_rpm E ?y ?n ?fan w2 = (rpm, w3)" by fastforce
  obtain c where c: "scale_rpm (sub_multiplier sub) (sub_numerator sub) rpm = Inr c"
    using scale_rpm_total [OF byte_rpm [OF bytes rpm] mult] .
  have "\<exists>t. fand_read_fan_status E fa s = Inr t"
    using f x fru dir present rpm c
    by (cases present) (auto simp: fand_read_fan_status_def Let_def split: prod.splits)
  with that show thesis by blast
qed

text \<open>The direction that a reading leaves is one of the names, and nothing else.\<close>

lemma fand_read_direction_name:
  "fand_read_direction E y name fan w = Inr (d, w') \<Longrightarrow> d \<in> set fandirection_string"
  by (auto simp: fand_read_direction_def Let_def res_bind_eq_Inr direction_codec.print_in_names
      split: option.splits)

lemma fand_read_fan_status_direction:
  assumes "fand_read_fan_status E fa s = Inr t" and "fan_heap t fa = Some g"
  shows "fan_direction g \<in> set fandirection_string"
  using assms
  by (auto simp: fand_read_fan_status_def Let_def res_bind_eq_Inr split_beta store_fan_def
      split: if_splits dest!: fand_read_direction_name)

text \<open>What one step of the reading loop guarantees.\<close>

definition reads_fan :: "addr \<Rightarrow> locl_subsystem \<Rightarrow> ('y, 'w) fand \<Rightarrow> ('y, 'w) fand \<Rightarrow> bool" where
  "reads_fan fa sub s t \<longleftrightarrow>
     (\<exists>f g w. fan_heap s fa = Some f \<and> same_identity f g \<and> fan_speed g = sub_speed sub \<and>
        fan_direction g \<in> set fandirection_string \<and>
        t = s\<lparr>bus := w, fan_heap := (fan_heap s)(fa \<mapsto> g)\<rparr>)"

lemma reads_fan_same:
  assumes "reads_fan fa sub s t"
  shows "same_daemon s t" and "same_outside s t" and "subsystem_heap t = subsystem_heap s"
proof -
  from assms obtain f g w where f: "fan_heap s fa = Some f" "same_identity f g"
    and t: "t = s\<lparr>bus := w, fan_heap := (fan_heap s)(fa \<mapsto> g)\<rparr>"
    unfolding reads_fan_def by blast
  show "same_outside s t" "subsystem_heap t = subsystem_heap s"
    by (simp_all add: t same_outside_def)
  have "same_registry (s\<lparr>bus := w\<rparr>) (s\<lparr>bus := w, fan_heap := (fan_heap (s\<lparr>bus := w\<rparr>))(fa \<mapsto> g)\<rparr>)"
    using f by (intro same_registry_fan_update) auto
  then show "same_daemon s t" by (simp add: t same_daemon_def option.rel_refl)
qed

lemma read_registered_fan_ok:
  assumes plat: "platform E cat" and ok: "daemon_ok E cat s"
    and n: "(n, a) \<in> set (subsystem_data s)" and x: "subsystem_heap s a = Some sub"
    and node: "node \<in> set (subsystem_fans sub)"
  obtains t where "read_registered_fan E a node s = Inr t" and "reads_fan (snd node) sub s t"
proof -
  note reg = daemon_ok_D(1) [OF ok]
  obtain f where f: "fan_heap s (snd node) = Some f" and owner: "fan_subsystem f = a"
    using registry_ok_D(3) [OF reg n] x node by (cases node) (auto simp: subsystem_ok_def)
  have valid: "sub_valid sub"
    using daemon_ok_D(3) [OF ok n x] node by (cases "sub_valid sub") (simp_all add: subsystem_known_def)
  obtain info frus where k: "entry_known E cat s sub info frus"
    using subsystem_known_valid [OF daemon_ok_D(3) [OF ok n x] valid] .
  have sound: "sound_entry (info, frus)"
    using plat entry_known_D(1) [OF k] unfolding platform_def yaml_library_def by blast
  define g where "g = f\<lparr>fan_speed := sub_speed sub\<rparr>"
  define u where "u = store_fan (snd node) g s"
  have u: "fan_heap u (snd node) = Some g" "subsystem_heap u (fan_subsystem g) = Some sub"
    "yaml_handle u = yaml_handle s" "fan_yaml g \<in> set (all_fans frus)"
    using entry_known_D(6) [OF k node] f owner x by (auto simp: u_def g_def store_fan_def)
  obtain t where t: "fand_read_fan_status E (snd node) u = Inr t"
  proof (rule fand_read_fan_status_total [OF _ u(1,2) _ u(4)])
    show "byte_registers E" using plat by (simp add: platform_def)
    show "described E (yaml_handle u) (sub_name sub) info frus"
      using entry_known_D(2) [OF k] by (simp add: u(3))
    show "\<bar>sint (sub_multiplier sub)\<bar> \<le> 32768"
      using sound entry_known_D(3) [OF k] by (simp add: sound_entry_def)
  qed
  from t obtain h w where h: "same_identity g h" "fan_speed h = fan_speed g"
    "t = u\<lparr>bus := w, fan_heap := (fan_heap u)(snd node \<mapsto> h)\<rparr>"
    using u(1) by (rule_tac fand_read_fan_status_frame [OF t]) auto
  have "reads_fan (snd node) sub s t"
    unfolding reads_fan_def
  proof (intro exI conjI)
    show "fan_heap s (snd node) = Some f" by (rule f)
    show "same_identity f h" using h(1) by (simp add: same_identity_def g_def)
    show "fan_speed h = sub_speed sub" using h(2) by (simp add: g_def)
    show "fan_direction h \<in> set fandirection_string"
      by (rule fand_read_fan_status_direction [OF t]) (simp add: h(3))
    show "t = s\<lparr>bus := w, fan_heap := (fan_heap s)(snd node \<mapsto> h)\<rparr>"
      by (simp add: h(3) u_def store_fan_def)
  qed
  moreover have "read_registered_fan E a node s = Inr t"
    using x f t by (simp add: read_registered_fan_def u_def g_def)
  ultimately show thesis using that by blast
qed

section \<open>The reading loop\<close>

text \<open>
  \<open>fans_read A s t\<close>: the state moved on by readings of the fans \<open>A\<close> only, and each of them
  carries the speed of its subsystem and the name of a direction.
\<close>

definition speed_of :: "('y, 'w) fand \<Rightarrow> locl_fan \<Rightarrow> fanspeed option" where
  "speed_of s f = map_option sub_speed (subsystem_heap s (fan_subsystem f))"

definition fans_read :: "addr set \<Rightarrow> ('y, 'w) fand \<Rightarrow> ('y, 'w) fand \<Rightarrow> bool" where
  "fans_read A s t \<longleftrightarrow> same_daemon s t \<and> same_outside s t \<and> subsystem_heap t = subsystem_heap s \<and>
     (\<forall>fa. fa \<notin> A \<longrightarrow> fan_heap t fa = fan_heap s fa) \<and>
     (\<forall>fa \<in> A. \<exists>f. fan_heap t fa = Some f \<and> speed_of s f = Some (fan_speed f) \<and>
        fan_direction f \<in> set fandirection_string)"

lemma fans_read_empty [simp]: "fans_read {} s s"
  by (simp add: fans_read_def)

lemma fans_read_trans:
  assumes "fans_read A s t" and "fans_read B t u"
  shows "fans_read (A \<union> B) s u"
proof -
  have "\<exists>f. fan_heap u fa = Some f \<and> speed_of s f = Some (fan_speed f) \<and>
      fan_direction f \<in> set fandirection_string" if "fa \<in> A \<union> B" for fa
  proof (cases "fa \<in> B")
    case True
    with assms show ?thesis unfolding fans_read_def speed_of_def by metis
  next
    case False
    with assms that show ?thesis unfolding fans_read_def by (metis Un_iff)
  qed
  with assms show ?thesis
    unfolding fans_read_def by (metis UnI1 UnI2 same_daemon_trans same_outside_trans)
qed

lemma fans_read_one:
  assumes step: "reads_fan fa sub s t"
    and f: "fan_heap s fa = Some f" and x: "subsystem_heap s (fan_subsystem f) = Some sub"
  shows "fans_read {fa} s t"
proof -
  from step f obtain g w where g: "same_identity f g" "fan_speed g = sub_speed sub"
    "fan_direction g \<in> set fandirection_string" "t = s\<lparr>bus := w, fan_heap := (fan_heap s)(fa \<mapsto> g)\<rparr>"
    unfolding reads_fan_def by auto
  then have "speed_of s g = Some (fan_speed g)"
    using x by (simp add: speed_of_def same_identity_def)
  with g(3,4) reads_fan_same [OF step] show ?thesis by (simp add: fans_read_def)
qed

lemma read_fans_loop:
  assumes plat: "platform E cat" and "daemon_ok E cat s" and "(n, a) \<in> set (subsystem_data s)"
    and "subsystem_heap s a = Some sub" and "set nodes \<subseteq> set (subsystem_fans sub)"
  shows "\<exists>t. for_each (read_registered_fan E a) nodes s = Inr t \<and> fans_read (snd ` set nodes) s t"
  using assms(2-)
proof (induction nodes arbitrary: s)
  case (Cons node nodes)
  note ok = Cons.prems(1) and n = Cons.prems(2) and x = Cons.prems(3)
  have node: "node \<in> set (subsystem_fans sub)" using Cons.prems(4) by simp
  obtain u where u: "read_registered_fan E a node s = Inr u" and step: "reads_fan (snd node) sub s u"
    by (rule read_registered_fan_ok [OF plat ok n x node])
  note same = reads_fan_same [OF step]
  obtain f where "fan_heap s (snd node) = Some f" "fan_subsystem f = a"
    using registry_ok_D(3) [OF daemon_ok_D(1) [OF ok] n] x node
    by (cases node) (auto simp: subsystem_ok_def)
  with step x have one: "fans_read {snd node} s u" by (intro fans_read_one) auto
  have data: "subsystem_data u = subsystem_data s"
    using same(1) by (simp add: same_daemon_def same_registry_D(3))
  have "\<exists>t. for_each (read_registered_fan E a) nodes u = Inr t \<and> fans_read (snd ` set nodes) u t"
    using Cons.IH [of u] same_daemon_ok [OF same(1) ok] n x Cons.prems(4) by (simp add: data same(3))
  then obtain t where "for_each (read_registered_fan E a) nodes u = Inr t"
    "fans_read (snd ` set nodes) u t" by blast
  with u fans_read_trans [OF one] show ?case by auto
qed simp

text \<open>The fans of the subsystem nodes \<open>nodes\<close>.\<close>

definition fans_of :: "(addr \<rightharpoonup> locl_subsystem) \<Rightarrow> shash_node list \<Rightarrow> addr set" where
  "fans_of heap nodes =
     (\<Union>node \<in> set nodes. case heap (snd node) of None \<Rightarrow> {} | Some sub \<Rightarrow> snd ` set (subsystem_fans sub))"

lemma read_all_loop:
  assumes plat: "platform E cat" and "daemon_ok E cat s" and "set nodes \<subseteq> set (subsystem_data s)"
  shows "\<exists>t. for_each (read_subsystem_fans E) nodes s = Inr t \<and>
    fans_read (fans_of (subsystem_heap s) nodes) s t"
  using assms(2-)
proof (induction nodes arbitrary: s)
  case Nil
  then show ?case by (simp add: fans_of_def)
next
  case (Cons node nodes)
  note ok = Cons.prems(1)
  have n: "(fst node, snd node) \<in> set (subsystem_data s)" using Cons.prems(2) by simp
  obtain sub where x: "subsystem_heap s (snd node) = Some sub"
    using registered_subsystem [OF daemon_ok_D(1) [OF ok] n] .
  obtain u where u: "for_each (read_registered_fan E (snd node))
      (shash_nodes (hash_bucket E) (subsystem_fans sub)) s = Inr u"
    and one: "fans_read (snd ` set (subsystem_fans sub)) s u"
    using read_fans_loop [OF plat ok n x, of "shash_nodes (hash_bucket E) (subsystem_fans sub)"] by auto
  have same: "same_daemon s u" "subsystem_heap u = subsystem_heap s"
    using one by (simp_all add: fans_read_def)
  have data: "subsystem_data u = subsystem_data s"
    using same(1) by (simp add: same_daemon_def same_registry_D(3))
  obtain t where t: "for_each (read_subsystem_fans E) nodes u = Inr t"
    and rest: "fans_read (fans_of (subsystem_heap u) nodes) u t"
    using Cons.IH [of u] same_daemon_ok [OF same(1) ok] Cons.prems(2) by (auto simp: data)
  have "fans_of (subsystem_heap s) (node # nodes) =
      snd ` set (subsystem_fans sub) \<union> fans_of (subsystem_heap u) nodes"
    by (simp add: fans_of_def x same(2))
  moreover have "read_subsystem_fans E node s = Inr u"
    using u x by (simp add: read_subsystem_fans_def)
  ultimately show ?case using t fans_read_trans [OF one rest] by simp
qed

lemma all_fans_registered:
  assumes ok: "registry_ok s"
  shows "fans_of (subsystem_heap s) (subsystem_data s) = snd ` set (fan_data s)"
proof
  show "fans_of (subsystem_heap s) (subsystem_data s) \<subseteq> snd ` set (fan_data s)"
  proof
    fix fa assume "fa \<in> fans_of (subsystem_heap s) (subsystem_data s)"
    then obtain node sub where "node \<in> set (subsystem_data s)" "subsystem_heap s (snd node) = Some sub"
      "fa \<in> snd ` set (subsystem_fans sub)"
      by (auto simp: fans_of_def split: option.splits)
    with registry_ok_D(3) [OF ok] show "fa \<in> snd ` set (fan_data s)"
      by (fastforce simp: subsystem_ok_def)
  qed
  show "snd ` set (fan_data s) \<subseteq> fans_of (subsystem_heap s) (subsystem_data s)"
  proof
    fix fa assume "fa \<in> snd ` set (fan_data s)"
    then obtain n where n: "(n, fa) \<in> set (fan_data s)" by auto
    obtain f sub where "fan_heap s fa = Some f"
      and sub: "(sub_name sub, fan_subsystem f) \<in> set (subsystem_data s)"
      "subsystem_heap s (fan_subsystem f) = Some sub" "(n, fa) \<in> set (subsystem_fans sub)"
      by (rule registered_fan [OF ok n]) blast
    then show "fa \<in> fans_of (subsystem_heap s) (subsystem_data s)"
      unfolding fans_of_def by (intro UN_I [OF sub(1)]) (auto intro: rev_image_eqI)
  qed
qed

lemma read_all_fans_ok:
  assumes "platform E cat" and "daemon_ok E cat s"
  obtains t where "read_all_fans E s = Inr t" and "fans_read (snd ` set (fan_data s)) s t"
proof -
  have "fans_of (subsystem_heap s) (shash_nodes (hash_bucket E) (subsystem_data s)) =
      snd ` set (fan_data s)"
    using all_fans_registered [OF daemon_ok_D(1) [OF assms(2)]] by (simp add: fans_of_def)
  with read_all_loop [OF assms, of "shash_nodes (hash_bucket E) (subsystem_data s)"] that
  show thesis by (auto simp: read_all_fans_def)
qed

section \<open>Publishing\<close>

text \<open>A row that says what the daemon knows of its fan.\<close>

definition row_matches :: "locl_fan \<Rightarrow> ovsrec_fan \<Rightarrow> bool" where
  "row_matches fan row \<longleftrightarrow>
     row_status row = fan_status_enum_to_string (fan_status fan) \<and>
     row_speed row = fan_speed_enum_to_string (fan_speed fan) \<and>
     row_direction row = fan_direction fan \<and>
     row_rpm row = Some (scast (fan_rpm fan))"

lemma refresh_row_eq:
  "refresh_row fan row =
     (row\<lparr>row_status := fan_status_enum_to_string (fan_status fan),
          row_direction := fan_direction fan,
          row_speed := fan_speed_enum_to_string (fan_speed fan),
          row_rpm := Some (scast (fan_rpm fan))\<rparr>, \<not> row_matches fan row)"
  by (cases row) (auto simp: refresh_row_def row_matches_def Let_def)

lemma row_matches_refreshed: "row_matches fan (fst (refresh_row fan row))"
  by (simp add: refresh_row_eq row_matches_def)

lemma refresh_row_name [simp]: "row_name (fst (refresh_row fan row)) = row_name row"
  by (simp add: refresh_row_eq)

lemma refresh_row_unchanged: "\<not> snd (refresh_row fan row) \<Longrightarrow> fst (refresh_row fan row) = row"
  by (cases row) (simp add: refresh_row_eq row_matches_def)

text \<open>The fan that a name stands for.\<close>

definition fan_called :: "('y, 'w) fand \<Rightarrow> string \<Rightarrow> locl_fan" where
  "fan_called s n = the (fan_heap s (the (map_of (fan_data s) n)))"

lemma fan_called_eq:
  assumes "registry_ok s" and "(n, fa) \<in> set (fan_data s)" and "fan_heap s fa = Some f"
  shows "fan_called s n = f"
  using assms registry_ok_D(2) [OF assms(1)] by (simp add: fan_called_def)

lemma publish_row_eq:
  assumes ok: "registry_ok s"
  shows "publish_row E s row (rows, change) =
    (if row_name row \<in> fst ` set (fan_data s)
     then Inr (rows @ [fst (refresh_row (fan_called s (row_name row)) row)],
               change \<or> snd (refresh_row (fan_called s (row_name row)) row))
     else Inl NullDeref)"
proof (cases "row_name row \<in> fst ` set (fan_data s)")
  case True
  then obtain fa where fa: "(row_name row, fa) \<in> set (fan_data s)" by auto
  obtain f sub where f: "fan_heap s fa = Some f" and "subsystem_heap s (fan_subsystem f) = Some sub"
    by (rule registered_fan [OF ok fa]) blast
  show ?thesis
    using True shash_find_unique [OF registry_ok_D(2) [OF ok] fa, of "hash_bucket E"] f
      fan_called_eq [OF ok fa f]
    by (simp add: publish_row_def split_beta)
next
  case False
  then show ?thesis
    using shash_find_None [of "hash_bucket E" "fan_data s" "row_name row"]
    by (simp add: publish_row_def)
qed

lemma publish_rows_eq:
  assumes ok: "registry_ok s"
  shows "for_each (publish_row E s) rows (before, change) =
    (if row_name ` set rows \<subseteq> fst ` set (fan_data s)
     then Inr (before @ map (\<lambda>row. fst (refresh_row (fan_called s (row_name row)) row)) rows,
               change \<or> (\<exists>row \<in> set rows. snd (refresh_row (fan_called s (row_name row)) row)))
     else Inl NullDeref)"
proof (induction rows arbitrary: before change)
  case (Cons row rows)
  then show ?case by (simp add: publish_row_eq [OF ok])
qed simp

text \<open>The view that a publication sends, and whether there is anything to send.\<close>

definition fresh_rows :: "('y, 'w) fand \<Rightarrow> ovsrec_fan list" where
  "fresh_rows s = map (\<lambda>row. fst (refresh_row (fan_called s (row_name row)) row)) (db_fans (idl_db s))"

definition rows_changed :: "('y, 'w) fand \<Rightarrow> bool" where
  "rows_changed s \<longleftrightarrow>
     (\<exists>row \<in> set (db_fans (idl_db s)). \<not> row_matches (fan_called s (row_name row)) row)"

lemma publish_status_eq:
  assumes ok: "registry_ok s"
  shows "publish_status E s =
    (if row_names (idl_db s) \<subseteq> fst ` set (fan_data s) then
       (let (daemons, found) = (if cur_hw_set s then (db_daemons (idl_db s), False)
                                else set_cur_hw (db_daemons (idl_db s)));
            t = s\<lparr>cur_hw_set := cur_hw_set s \<or> found\<rparr>
        in Inr (if rows_changed s \<or> found
                then commit_block E ((idl_db s)\<lparr>db_fans := fresh_rows s, db_daemons := daemons\<rparr>) t
                else t))
     else Inl NullDeref)"
  using publish_rows_eq [OF ok, of E "db_fans (idl_db s)" "[]" False]
  by (auto simp: publish_status_def row_names_def fresh_rows_def rows_changed_def refresh_row_eq
      Let_def split: prod.splits)

lemma set_cur_hw_eq:
  "set_cur_hw ds =
     (if \<exists>d \<in> set ds. daemon_name d = ''ops-fand'' then
        (takeWhile (\<lambda>d. daemon_name d \<noteq> ''ops-fand'') ds @
         (case dropWhile (\<lambda>d. daemon_name d \<noteq> ''ops-fand'') ds of
            [] \<Rightarrow> [] | d # rest \<Rightarrow> d\<lparr>daemon_cur_hw := 1\<rparr> # rest), True)
      else (ds, False))"
  by (induction ds) (auto simp: split_beta)

lemma set_cur_hw_not_found: "\<not> snd (set_cur_hw ds) \<Longrightarrow> fst (set_cur_hw ds) = ds"
  by (simp add: set_cur_hw_eq split: if_splits)

section \<open>The whole function\<close>

text \<open>Publishing does not touch the registry.\<close>

lemma publish_status_same:
  assumes "publish_status E s = Inr t" and "registry_ok s"
  shows "same_daemon s t" and "subsystem_heap t = subsystem_heap s" and "fan_heap t = fan_heap s"
    and "idl_seqno t = idl_seqno s" and "row_names (idl_db t) = row_names (idl_db s)"
    and "db_subsystems (idl_db t) = db_subsystems (idl_db s)"
proof -
  have names: "row_name ` set (fresh_rows s) = row_name ` set (db_fans (idl_db s))"
    by (simp add: fresh_rows_def image_image)
  obtain ds found where df: "(if cur_hw_set s then (db_daemons (idl_db s), False)
      else set_cur_hw (db_daemons (idl_db s))) = (ds, found)" by fastforce
  define u where "u = (if rows_changed s \<or> found
      then commit_block E ((idl_db s)\<lparr>db_fans := fresh_rows s, db_daemons := ds\<rparr>)
             (s\<lparr>cur_hw_set := cur_hw_set s \<or> found\<rparr>)
      else s\<lparr>cur_hw_set := cur_hw_set s \<or> found\<rparr>)"
  have "publish_status E s =
      (if row_names (idl_db s) \<subseteq> fst ` set (fan_data s) then Inr u else Inl NullDeref)"
    unfolding publish_status_eq [OF assms(2)] df Let_def prod.case u_def by (rule refl)
  with assms(1) have "t = u" by (simp split: if_splits)
  note t = this [unfolded u_def]
  show "same_daemon s t"
    by (auto simp: t commit_block_def same_daemon_def same_registry_def intro: option.rel_refl)
  show "subsystem_heap t = subsystem_heap s" "fan_heap t = fan_heap s" "idl_seqno t = idl_seqno s"
    by (simp_all add: t commit_block_def)
  show "row_names (idl_db t) = row_names (idl_db s)"
    "db_subsystems (idl_db t) = db_subsystems (idl_db s)"
    using names by (auto simp: t commit_block_def row_names_def)
qed

text \<open>The outcome of \<open>fand_read_status\<close> in a daemon that satisfies its invariant.\<close>

lemma fand_read_status_ok:
  assumes plat: "platform E cat" and ok: "daemon_ok E cat s"
    and rows: "row_names (idl_db s) \<subseteq> fst ` set (fan_data s)"
  obtains u t where "fand_read_status E s = Inr t" and "read_all_fans E s = Inr u"
    and "fans_read (snd ` set (fan_data s)) s u" and "publish_status E u = Inr t"
    and "daemon_ok E cat u" and "same_daemon s t" and "subsystem_heap t = subsystem_heap s"
    and "idl_seqno t = idl_seqno s" and "row_names (idl_db t) = row_names (idl_db s)"
proof -
  obtain u where u: "read_all_fans E s = Inr u" and read: "fans_read (snd ` set (fan_data s)) s u"
    by (rule read_all_fans_ok [OF plat ok])
  have same: "same_daemon s u" "same_outside s u" "subsystem_heap u = subsystem_heap s"
    using read by (simp_all add: fans_read_def)
  have ok_u: "daemon_ok E cat u" by (rule same_daemon_ok [OF same(1) ok])
  note reg = daemon_ok_D(1) [OF ok_u]
  have outer: "idl_db u = idl_db s" "idl_seqno u = idl_seqno s" "fan_data u = fan_data s"
    using same(1,2) by (simp_all add: same_outside_def same_daemon_def same_registry_D(4))
  have "\<exists>t. publish_status E u = Inr t"
    using rows by (simp add: publish_status_eq [OF reg] outer Let_def split: prod.splits)
  then obtain t where t: "publish_status E u = Inr t" ..
  note pub = publish_status_same [OF t reg]
  show thesis
  proof (rule that [OF _ u read t ok_u])
    show "fand_read_status E s = Inr t" by (simp add: fand_read_status_def u t)
    show "same_daemon s t" by (rule same_daemon_trans [OF same(1) pub(1)])
  qed (simp_all add: pub same outer)
qed

lemma fand_read_status_fault:
  assumes plat: "platform E cat" and ok: "daemon_ok E cat s"
    and rows: "\<not> row_names (idl_db s) \<subseteq> fst ` set (fan_data s)"
  shows "fand_read_status E s = Inl NullDeref"
proof -
  obtain u where u: "read_all_fans E s = Inr u" and read: "fans_read (snd ` set (fan_data s)) s u"
    by (rule read_all_fans_ok [OF plat ok])
  have same: "same_daemon s u" "same_outside s u" using read by (simp_all add: fans_read_def)
  have "registry_ok u" by (rule daemon_ok_D(1) [OF same_daemon_ok [OF same(1) ok]])
  moreover have "idl_db u = idl_db s" "fan_data u = fan_data s"
    using same by (simp_all add: same_outside_def same_daemon_def same_registry_D(4))
  ultimately show ?thesis
    using rows by (simp add: fand_read_status_def u publish_status_eq)
qed

text \<open>If the server accepts everything, the rows are fresh whether or not there was a commit.\<close>

lemma refresh_matching: "row_matches fan row \<Longrightarrow> fst (refresh_row fan row) = row"
  by (rule refresh_row_unchanged) (simp add: refresh_row_eq)

lemma fresh_rows_unchanged: "\<not> rows_changed s \<Longrightarrow> fresh_rows s = db_fans (idl_db s)"
  by (simp add: fresh_rows_def rows_changed_def refresh_matching map_idI)

lemma publish_status_fresh:
  assumes "publish_status E s = Inr t" and "registry_ok s" and "\<And>w db view. commit_ok E w db view"
  shows "db_fans (idl_db t) = fresh_rows s"
  using assms(1) fresh_rows_unchanged [of s]
  by (auto simp: publish_status_eq [OF assms(2)] Let_def commit_block_def assms(3)
      split: if_splits prod.splits)

section \<open>Properties\<close>

text \<open>The bench after its first reconfiguration: the subsystem, its three fans and their rows.\<close>

definition bench_ready :: "(string list, bench_dev) fand" where
  "bench_ready = (case fand_reconfigure bench bench_start of Inr t \<Rightarrow> t | Inl _ \<Rightarrow> bench_start)"

lemma bench_ready:
  "fand_reconfigure bench bench_start = Inr bench_ready" "settled bench bench_cat bench_ready"
  "row_names (idl_db bench_ready) \<subseteq> fst ` set (fan_data bench_ready)"
proof -
  obtain t where t: "fand_reconfigure bench bench_start = Inr t" "settled bench bench_cat t"
    "row_names (idl_db t) \<subseteq> managed_names bench_cat [bench_cfg] \<union> row_names bench_db"
    "managed_names bench_cat [bench_cfg] \<subseteq> fst ` set (fan_data t)"
    by (rule fand_reconfigure_ok [OF yaml_library_bench bench_start_simps(1)])
      simp_all
  then have "bench_ready = t" by (simp add: bench_ready_def)
  with t show "fand_reconfigure bench bench_start = Inr bench_ready" "settled bench bench_cat bench_ready"
    "row_names (idl_db bench_ready) \<subseteq> fst ` set (fan_data bench_ready)"
    by (auto simp: row_names_def)
qed

lemma bench_ready_ok: "daemon_ok bench bench_cat bench_ready"
  using bench_ready(2) by (simp add: settled_def)

lemma bench_ready_rows:
  "map row_name (db_fans (idl_db bench_ready)) = [''base-1L'', ''base-1R'', ''base-2L'']"
  by code_simp

text \<open>C5: Unknown rows. On a platform that keeps its contracts and in a state that satisfies the
  invariant, \<open>fand_read_status\<close> faults exactly when the database has a fan row whose name the
  daemon does not know, and the fault is the access through the NULL that \<open>shash_find\<close>
  answers; otherwise it returns.\<close>

theorem fand_read_status_faults_exactly:
  assumes "platform E cat" and "daemon_ok E cat s"
  shows "(\<exists>t. fand_read_status E s = Inr t) =
      (\<forall>row \<in> set (db_fans (idl_db s)). row_name row \<in> fst ` set (fan_data s)) \<and>
    (fand_read_status E s = Inl e) =
      (e = NullDeref \<and>
       (\<exists>row \<in> set (db_fans (idl_db s)). row_name row \<notin> fst ` set (fan_data s)))"
proof -
  have rows: "row_names (idl_db s) \<subseteq> fst ` set (fan_data s) \<longleftrightarrow>
      (\<forall>row \<in> set (db_fans (idl_db s)). row_name row \<in> fst ` set (fan_data s))"
    unfolding row_names_def by blast
  show ?thesis
  proof (cases "row_names (idl_db s) \<subseteq> fst ` set (fan_data s)")
    case True
    then obtain t where "fand_read_status E s = Inr t"
      by (rule fand_read_status_ok [OF assms])
    with True rows show ?thesis by simp
  next
    case False
    with fand_read_status_fault [OF assms False] rows show ?thesis by auto
  qed
qed

text \<open>A row of a fan that another daemon, or an older version, left behind.\<close>

definition bench_stray :: "(string list, bench_dev) fand" where
  "bench_stray = bench_ready\<lparr>idl_db := bench_db\<lparr>db_fans :=
     [\<lparr>row_uuid = 1, row_name = ''psu-9'', row_status = ''ok'', row_direction = ''f2b'',
       row_speed = ''slow'', row_rpm = None\<rparr>]\<rparr>\<rparr>"

lemma bench_stray_ok: "daemon_ok bench bench_cat bench_stray"
  unfolding bench_stray_def by (rule same_daemon_ok [OF same_daemon_idl bench_ready_ok])

theorem fand_read_status_faults_exactly_witness:
  "fand_read_status bench bench_stray = Inl NullDeref"
proof -
  have "map fst (fan_data bench_ready) = [''base-2L'', ''base-1R'', ''base-1L'']" by code_simp
  then have "fst ` set (fan_data bench_stray) = {''base-2L'', ''base-1R'', ''base-1L''}"
    by (simp add: bench_stray_def flip: set_map)
  then show ?thesis
    using fand_read_status_faults_exactly [OF platform_bench bench_stray_ok, of NullDeref]
    by (simp add: bench_stray_def)
qed

text \<open>What a publication that the server accepts comes to.\<close>

lemma fand_read_status_published:
  assumes "platform E cat" and "daemon_ok E cat s"
    and "\<forall>row \<in> set (db_fans (idl_db s)). row_name row \<in> fst ` set (fan_data s)"
    and "\<And>w db view. commit_ok E w db view"
  shows "\<exists>t. fand_read_status E s = Inr t \<and> daemon_ok E cat t \<and>
    map row_name (db_fans (idl_db t)) = map row_name (db_fans (idl_db s)) \<and>
    (\<forall>row \<in> set (db_fans (idl_db t)). \<exists>fa f. (row_name row, fa) \<in> set (fan_data t) \<and>
       fan_heap t fa = Some f \<and> row_matches f row \<and> speed_of t f = Some (fan_speed f))"
proof -
  have rows: "row_names (idl_db s) \<subseteq> fst ` set (fan_data s)"
    using assms(3) unfolding row_names_def by blast
  obtain u t where t: "fand_read_status E s = Inr t" and read: "fans_read (snd ` set (fan_data s)) s u"
    and pub: "publish_status E u = Inr t" and ok_u: "daemon_ok E cat u" and same: "same_daemon s t"
    and heap: "subsystem_heap t = subsystem_heap s"
    by (rule fand_read_status_ok [OF assms(1,2) rows])
  have ok_t: "daemon_ok E cat t" by (rule same_daemon_ok [OF same assms(2)])
  note reg = daemon_ok_D(1) [OF ok_u]
  note p = publish_status_same [OF pub reg]
  have data: "fan_data t = fan_data u" "fan_data u = fan_data s" "idl_db u = idl_db s"
    using p(1) read same_registry_D(4) [of u t] same_registry_D(4) [of s u]
    by (simp_all add: same_daemon_def fans_read_def same_outside_def)
  have fresh: "db_fans (idl_db t) = fresh_rows u"
    by (rule publish_status_fresh [OF pub reg assms(4)])
  have "\<exists>fa f. (row_name row, fa) \<in> set (fan_data t) \<and> fan_heap t fa = Some f \<and>
      row_matches f row \<and> speed_of t f = Some (fan_speed f)"
    if row: "row \<in> set (db_fans (idl_db t))" for row
  proof -
    from row fresh obtain r where r: "r \<in> set (db_fans (idl_db s))"
      "row = fst (refresh_row (fan_called u (row_name r)) r)"
      by (auto simp: fresh_rows_def data)
    with rows obtain fa where fa: "(row_name row, fa) \<in> set (fan_data s)"
      by (auto simp: row_names_def)
    then have "fa \<in> snd ` set (fan_data s)" by (rule rev_image_eqI) simp
    then obtain f where f: "fan_heap u fa = Some f" "speed_of s f = Some (fan_speed f)"
      using read unfolding fans_read_def by blast
    have "fan_called u (row_name row) = f"
      using fan_called_eq [OF reg _ f(1)] fa data by simp
    then have "row_matches f row" using r row_matches_refreshed by simp
    with fa f heap show ?thesis by (auto simp: data p(3) speed_of_def)
  qed
  moreover have "map row_name (db_fans (idl_db t)) = map row_name (db_fans (idl_db s))"
    by (simp add: fresh fresh_rows_def data)
  ultimately show ?thesis using t ok_t by blast
qed







end
