(* ===== verification/Run.thy ===== *)
theory Run
  imports Reading
begin

text \<open>
  Whole runs of the daemon: \<open>fand_run\<close>, the control socket and the main loop keep the
  invariant, and on a platform that keeps its contracts no run reaches a fault.
\<close>

section \<open>What the database sends\<close>

text \<open>
  The replica's sequence number stands for the content of the subsystem table (names and
  description directories): \<open>tbl\<close> gives the content for each number. Subsystem names are
  unique, the joined names of their fans differ from those of other subsystems, and every fan
  row belongs to a subsystem of the table that the catalogue describes.
\<close>

type_synonym table = "(string \<times> string option) list"

definition subsystem_table :: "ovsdb \<Rightarrow> table" where
  "subsystem_table db = map (\<lambda>cfg. (cfg_name cfg, cfg_hw_desc_dir cfg)) (db_subsystems db)"

definition loads :: "catalog \<Rightarrow> string \<times> string option \<Rightarrow> bool" where
  "loads cat row \<longleftrightarrow> snd row \<noteq> None \<and> snd row \<noteq> Some '''' \<and> cat (fst row) \<noteq> None"

definition managed_by :: "catalog \<Rightarrow> table \<Rightarrow> string set" where
  "managed_by cat rows =
     (\<Union>row \<in> set rows. if loads cat row then set (catalog_names cat (fst row)) else {})"

definition consistent :: "catalog \<Rightarrow> (u32 \<Rightarrow> table) \<Rightarrow> ovsdb \<Rightarrow> bool" where
  "consistent cat tbl db \<longleftrightarrow>
     subsystem_table db = tbl (db_seqno db) \<and>
     distinct (map cfg_name (db_subsystems db)) \<and>
     (\<forall>cfg \<in> set (db_subsystems db). unambiguous cat (cfg_name cfg)) \<and>
     row_names db \<subseteq> managed_names cat (db_subsystems db)"

lemma managed_by_table: "managed_by cat (subsystem_table db) = managed_names cat (db_subsystems db)"
proof -
  have "loads cat (cfg_name cfg, cfg_hw_desc_dir cfg) = loadable cat cfg" for cfg
    by (simp add: loads_def loadable_def has_directory_def)
  then show ?thesis
    by (auto simp: managed_by_def subsystem_table_def managed_names_def split: if_splits)
qed

section \<open>The invariant of a run\<close>

text \<open>
  Every subsystem is valid, and the fans of the table that was last taken over are known.
\<close>

definition running ::
  "('y, 'w) services \<Rightarrow> catalog \<Rightarrow> (u32 \<Rightarrow> table) \<Rightarrow> ('y, 'w) fand \<Rightarrow> bool" where
  "running E cat tbl s \<longleftrightarrow> settled E cat s \<and>
     managed_by cat (tbl (idl_seqno s)) \<subseteq> fst ` set (fan_data s)"

lemma running_init:
  assumes "tbl (db_seqno db) = []"
  shows "running E cat tbl (fand_init E w db)"
  using assms
  by (simp add: running_def settled_def daemon_ok_def registry_ok_def fand_init_def
      init_subsystems_def managed_by_def)

lemma settled_same:
  assumes "settled E cat s" and "same_daemon s t"
  shows "settled E cat t"
proof -
  have "sub_valid z" if n: "(n, a) \<in> set (subsystem_data t)" and z: "subsystem_heap t a = Some z" for n a z
  proof -
    have n': "(n, a) \<in> set (subsystem_data s)"
      using n assms(2) same_registry_D(3) [of s t] by (simp add: same_daemon_def)
    have "registry_ok s" using assms(1) by (simp add: settled_def daemon_ok_def)
    then obtain x where x: "subsystem_heap s a = Some x"
      using registered_subsystem [OF _ n'] by blast
    have "rel_option same_hardware (subsystem_heap s a) (subsystem_heap t a)"
      using assms(2) by (simp add: same_daemon_def)
    with x z assms(1) n' show ?thesis by (auto simp: settled_def same_hardware_def)
  qed
  with assms same_daemon_ok [OF assms(2)] show ?thesis by (auto simp: settled_def)
qed

section \<open>One iteration\<close>

text \<open>The state after the reconfiguration of an iteration that holds the lock.\<close>

lemma reconfigure_run:
  assumes lib: "yaml_library E cat" and run: "running E cat tbl s"
    and db: "consistent cat tbl db"
  obtains t where "fand_reconfigure E (s\<lparr>idl_db := db\<rparr>) = Inr t" and "running E cat tbl t"
    and "row_names (idl_db t) \<subseteq> fst ` set (fan_data t)" and "idl_seqno t = db_seqno db"
    and "if db_seqno db = idl_seqno s then t = s\<lparr>idl_db := db\<rparr>
      else reflects cat (fst ` set (subsystem_data s)) (db_subsystems db) t"
    and "row_names (idl_db t) \<subseteq> managed_names cat (db_subsystems db)"
proof -
  let ?s = "s\<lparr>idl_db := db\<rparr>"
  have ok: "settled E cat ?s" using run settled_same [of E cat s ?s] by (simp add: running_def)
  have managed: "managed_by cat (tbl (db_seqno db)) = managed_names cat (db_subsystems db)"
    and rows: "row_names db \<subseteq> managed_names cat (db_subsystems db)"
    using db managed_by_table [of cat db] by (simp_all add: consistent_def)
  show thesis
  proof (cases "db_seqno db = idl_seqno s")
    case True
    have "running E cat tbl ?s" using ok run by (simp add: running_def)
    moreover have "row_names db \<subseteq> managed_by cat (tbl (idl_seqno s))"
      using rows managed True by simp
    then have "row_names db \<subseteq> fst ` set (fan_data s)"
      using run unfolding running_def by blast
    ultimately show thesis
      using True rows by (intro that [of ?s]) (simp_all add: fand_reconfigure_def)
  next
    case False
    obtain t where t: "fand_reconfigure E ?s = Inr t" "settled E cat t"
      "reflects cat (fst ` set (subsystem_data ?s)) (db_subsystems db) t"
      "row_names (idl_db t) \<subseteq> managed_names cat (db_subsystems db) \<union> row_names db"
      "managed_names cat (db_subsystems db) \<subseteq> fst ` set (fan_data t)"
      "idl_seqno t = db_seqno db"
      by (rule fand_reconfigure_ok [OF lib ok]) (use db False in \<open>simp_all add: consistent_def\<close>)
    have "running E cat tbl t" using t managed by (simp add: running_def)
    with t rows False show thesis by (intro that [of t]) auto
  qed
qed

text \<open>An iteration without the lock only takes over the replica.\<close>

lemma fand_run_idle:
  assumes "in_lock_contended inp \<or> \<not> in_has_lock inp"
  shows "fand_run E inp s = Inr (s\<lparr>idl_db := in_db inp\<rparr>)"
  using assms by (auto simp: fand_run_def Let_def)

lemma running_same:
  assumes "running E cat tbl s" and "same_daemon s t" and "idl_seqno t = idl_seqno s"
  shows "running E cat tbl t"
  using assms settled_same [of E cat s t] same_registry_D(4) [of s t]
  by (simp add: running_def same_daemon_def)

lemma fand_run_ok:
  assumes plat: "platform E cat" and run: "running E cat tbl s"
    and db: "consistent cat tbl (in_db inp)"
  obtains t where "fand_run E inp s = Inr t" and "running E cat tbl t"
proof (cases "in_lock_contended inp \<or> \<not> in_has_lock inp")
  case True
  have "running E cat tbl (s\<lparr>idl_db := in_db inp\<rparr>)"
    by (rule running_same [OF run same_daemon_idl]) simp
  with fand_run_idle [OF True] that show thesis by blast
next
  case False
  have lib: "yaml_library E cat" using plat by (simp add: platform_def)
  obtain u where u: "fand_reconfigure E (s\<lparr>idl_db := in_db inp\<rparr>) = Inr u" "running E cat tbl u"
    "row_names (idl_db u) \<subseteq> fst ` set (fan_data u)"
    by (rule reconfigure_run [OF lib run db]) blast
  have "daemon_ok E cat u" using u(2) by (simp add: running_def settled_def)
  then obtain t where t: "fand_read_status E u = Inr t" "same_daemon u t" "idl_seqno t = idl_seqno u"
    by (rule fand_read_status_ok [OF plat _ u(3)]) blast
  have "fand_run E inp s = Inr t" using False u(1) t(1) by (simp add: fand_run_def)
  with running_same [OF u(2) t(2,3)] that show thesis by blast
qed

section \<open>The control socket\<close>

text \<open>The text about one fan and about one subsystem; the registered objects are there.\<close>

definition fan_text :: "('y, 'w) fand \<Rightarrow> shash_node \<Rightarrow> string" where
  "fan_text s node = dump_fan (the (fan_heap s (snd node)))"

definition subsystem_text :: "('y, 'w) services \<Rightarrow> ('y, 'w) fand \<Rightarrow> shash_node \<Rightarrow> string" where
  "subsystem_text E s node =
     (let sub = the (subsystem_heap s (snd node)) in
      ''Subsystem: '' @ sub_name sub @ newline @
      ''    Fan speed Override: '' @ fan_speed_enum_to_string (sub_fan_speed_override sub) @ newline @
      ''    Fan speed: '' @ fan_speed_enum_to_string (sub_fan_speed sub) @ newline @
      ''    Fan details:'' @
      (if subsystem_fans sub = [] then ''No Fans found.'' @ newline
       else newline @ concat (map (fan_text s) (shash_nodes (hash_bucket E) (subsystem_fans sub)))))"

lemma for_each_output:
  assumes "\<And>x ds. x \<in> set xs \<Longrightarrow> body x ds = Inr (ds @ g x)"
  shows "for_each body xs ds = Inr (ds @ concat (map g xs))"
  using assms by (induction xs arbitrary: ds) auto

lemma dump_subsystem_text:
  assumes ok: "registry_ok s" and node: "node \<in> set (subsystem_data s)"
  shows "dump_subsystem E s node ds = Inr (ds @ subsystem_text E s node)"
proof -
  have n: "(fst node, snd node) \<in> set (subsystem_data s)" using node by simp
  obtain sub where sub: "subsystem_heap s (snd node) = Some sub"
    and table: "fan_table_ok (fan_heap s) sub"
    by (rule registered_subsystem [OF ok n]) blast
  have one: "res_bind (load (fan_heap s) (snd z)) (\<lambda>fan. Inr (ds @ dump_fan fan)) = Inr (ds @ fan_text s z)"
    if z: "z \<in> set (subsystem_fans sub)" for z ds
  proof -
    obtain f where "fan_heap s (snd z) = Some f"
      using table z by (cases z) (auto simp: fan_table_ok_def)
    then show ?thesis by (simp add: fan_text_def)
  qed
  have "for_each (\<lambda>fan_node ds. res_bind (load (fan_heap s) (snd fan_node)) (\<lambda>fan. Inr (ds @ dump_fan fan)))
      (shash_nodes (hash_bucket E) (subsystem_fans sub)) ds =
    Inr (ds @ concat (map (fan_text s) (shash_nodes (hash_bucket E) (subsystem_fans sub))))" for ds
    by (rule for_each_output) (simp add: one)
  with sub show ?thesis
    by (simp add: dump_subsystem_def subsystem_text_def shash_is_empty_def Let_def)
qed

lemma fand_unixctl_dump_text:
  assumes "registry_ok s"
  shows "fand_unixctl_dump E s =
    Inr (concat (map (subsystem_text E s) (shash_nodes (hash_bucket E) (subsystem_data s))))"
  using for_each_output [of "shash_nodes (hash_bucket E) (subsystem_data s)" "dump_subsystem E s"
      "subsystem_text E s" "''''"]
  by (simp add: fand_unixctl_dump_def dump_subsystem_text [OF assms])

lemma run_commands_ok:
  assumes "registry_ok (proc d)"
  shows "\<exists>e. for_each (run_command E) cs d = Inr e \<and> proc e = proc d \<and>
    exiting e = (exiting d \<or> Exit \<in> set cs)"
  using assms
proof (induction cs arbitrary: d)
  case (Cons c cs)
  obtain ds where "fand_unixctl_dump E (proc d) = Inr ds"
    using fand_unixctl_dump_text [OF Cons.prems] by blast
  then obtain e where e: "run_command E c d = Inr e" "proc e = proc d" "exiting e = (exiting d \<or> c = Exit)"
    by (cases c) (simp_all add: run_command_def)
  from Cons.IH [of e] Cons.prems e show ?case by auto
qed simp

lemma main_iteration_ok:
  assumes plat: "platform E cat" and run: "running E cat tbl (proc d)"
    and db: "consistent cat tbl (in_db inp)"
  obtains e where "main_iteration E inp cs d = Inr e" and "running E cat tbl (proc e)"
    and "fand_run E inp (proc d) = Inr (proc e)"
    and "exiting e = (exiting d \<or> Exit \<in> set cs)"
proof -
  obtain t where t: "fand_run E inp (proc d) = Inr t" "running E cat tbl t"
    by (rule fand_run_ok [OF plat run db])
  have "registry_ok t" using t(2) by (simp add: running_def settled_def daemon_ok_def)
  then obtain e where e: "for_each (run_command E) cs (d\<lparr>proc := t\<rparr>) = Inr e" "proc e = t"
    "exiting e = (exiting d \<or> Exit \<in> set cs)"
    using run_commands_ok [of "d\<lparr>proc := t\<rparr>" E cs] by auto
  have "main_iteration E inp cs d = Inr e" using t(1) e(1) by (simp add: main_iteration_def)
  from that [OF this] t e show thesis by simp
qed

section \<open>The main loop\<close>

lemma main_loop_running:
  assumes "main_loop E w db ins r" and plat: "platform E cat" and "tbl (db_seqno db) = []"
    and "\<forall>(inp, cs) \<in> set ins. consistent cat tbl (in_db inp)"
  shows "\<exists>d. r = Inr d \<and> running E cat tbl (proc d) \<and>
    exiting d = (ins \<noteq> [] \<and> Exit \<in> set (snd (last ins)))"
  using assms(1,4)
proof (induction rule: main_loop.induct)
  case start
  then show ?case using running_init [where tbl = tbl and db = db, OF assms(3)] by (simp add: main_start_def)
next
  case (iterate ins d inp commands)
  then have run: "running E cat tbl (proc d)" and db: "consistent cat tbl (in_db inp)" by auto
  obtain e where "main_iteration E inp commands d = Inr e" "running E cat tbl (proc e)"
    "exiting e = (exiting d \<or> Exit \<in> set commands)"
    by (rule main_iteration_ok [OF plat run db])
  with iterate.hyps show ?case by simp
qed

text \<open>Leaving the loop: the exit command, and nothing else, ends it after its iteration.\<close>

lemma run_command_exiting:
  "run_command E c d = Inr e \<Longrightarrow> exiting e = (exiting d \<or> c = Exit)"
  by (cases c) (auto simp: run_command_def res_bind_eq_Inr)

lemma run_commands_exiting:
  "for_each (run_command E) cs d = Inr e \<Longrightarrow> exiting e = (exiting d \<or> Exit \<in> set cs)"
proof (induction cs arbitrary: d)
  case (Cons c cs)
  then obtain d' where d': "run_command E c d = Inr d'" "for_each (run_command E) cs d' = Inr e"
    by (auto simp: res_bind_eq_Inr)
  from Cons.IH [OF d'(2)] run_command_exiting [OF d'(1)] show ?case by auto
qed simp

lemma main_loop_exiting:
  assumes "main_loop E w db ins (Inr d)"
  shows "exiting d = (ins \<noteq> [] \<and> Exit \<in> set (snd (last ins)))"
  using assms
proof (induction ins "Inr d :: ('a, 'b) daemon res" arbitrary: d rule: main_loop.induct)
  case start
  then show ?case by (simp add: main_start_def)
next
  case (iterate ins d inp commands)
  then show ?case
    by (auto simp: main_iteration_def res_bind_eq_Inr dest!: run_commands_exiting)
qed

inductive_simps main_loop_snoc: "main_loop E w db (ins @ [x]) r"

lemma main_loop_no_early_exit:
  assumes "main_loop E w db ins r"
  shows "\<forall>(inp, cs) \<in> set (butlast ins). Exit \<notin> set cs"
  using assms
proof (induction rule: main_loop.induct)
  case (iterate ins d inp commands)
  have "\<forall>(inp, cs) \<in> set ins. Exit \<notin> set cs"
  proof (cases "ins = []")
    case False
    then have "set ins = insert (last ins) (set (butlast ins))"
      by (metis append_butlast_last_id insert_is_Un list.set(2) set_append sup_commute list.set(1) sup_bot_right Un_insert_right)
    with iterate.IH main_loop_exiting [OF iterate.hyps(1)] iterate.hyps(2) False show ?thesis
      by (auto simp: split_beta)
  qed simp
  then show ?case by simp
qed simp

section \<open>Properties\<close>



end
