(* ===== verification/Hazards.thy ===== *)
theory Hazards
  imports Run
begin

text \<open>
  Runs on which the code goes wrong when an assumption of the safety theorem is dropped:
  dashes in subsystem names, and what the LEDs show: before a fan was read for the first time,
  and between two changes of the database. The runs are evaluated on small concrete platforms,
  variants of the bench.
\<close>

section \<open>Two subsystems with the same fan name\<close>

text \<open>
  Subsystem \<open>a\<close> has a fan \<open>b-c\<close>, subsystem \<open>a-b\<close> a fan \<open>c\<close>: with \<open>"%s-%s"\<close> both are \<open>a-b-c\<close>.
\<close>

definition clash_fans :: "string \<Rightarrow> yaml_fan list" where
  "clash_fans name = (if name = ''a'' then [bench_fan 1 ''b-c'' 21 None 31]
     else if name = ''a-b'' then [bench_fan 2 ''c'' 22 None 32] else [])"

definition clash_fru :: "string \<Rightarrow> yaml_fan_fru" where
  "clash_fru name = \<lparr>fru_fans = clash_fans name, fru_fan_speed_control = None, fru_fan_leds = None,
     fru_fan_direction_detect = None, fru_fan_present = None\<rparr>"

definition clash :: "(string list, bench_dev) services" where
  "clash = bench\<lparr>yaml_add_subsystem := (\<lambda>y name dir. (0, name # y)),
     yaml_parse_fans := (\<lambda>y name. (0, y)),
     yaml_get_fan_info := (\<lambda>y name. Some (bench_info\<lparr>number_fan_frus := 1\<rparr>)),
     yaml_get_fan_fru_count := (\<lambda>y name. 1),
     yaml_get_fan_fru := (\<lambda>y name i. if i = 0 then Some (clash_fru name) else None)\<rparr>"

definition clash_db :: "string list \<Rightarrow> ovsrec_fan list \<Rightarrow> u32 \<Rightarrow> ovsdb" where
  "clash_db names rows n = \<lparr>db_fans = rows,
     db_subsystems = map (\<lambda>name. \<lparr>cfg_name = name, cfg_hw_desc_dir = Some ''/etc'',
       cfg_other_config = Map.empty, cfg_temp_sensors = [], cfg_fans = []\<rparr>) names,
     db_daemons = [], db_seqno = n\<rparr>"

text \<open>An iteration that holds the lock and processes no command.\<close>

definition held :: "ovsdb \<Rightarrow> idl_input \<times> command list" where
  "held db = (\<lparr>in_db = db, in_lock_contended = False, in_has_lock = True\<rparr>, [])"

definition clash_start :: "(string list, bench_dev) daemon" where
  "clash_start = main_start clash bench_bus (clash_db [] [] 0)"

text \<open>First both subsystems are there, then \<open>a\<close> is removed; the shared row stays.\<close>

definition clash_both :: ovsdb where
  "clash_both = clash_db [''a'', ''a-b''] [] 1"

definition clash_middle :: "(string list, bench_dev) daemon res" where
  "clash_middle = main_iteration clash (fst (held clash_both)) [] clash_start"

definition clash_one :: ovsdb where
  "clash_one = clash_db [''a-b''] (db_fans (idl_db (proc (projr clash_middle)))) 2"

definition fault_of :: "'a res \<Rightarrow> fault option" where
  "fault_of r = (case r of Inl e \<Rightarrow> Some e | Inr _ \<Rightarrow> None)"

lemma fault_of_Some: "fault_of r = Some e \<longleftrightarrow> r = Inl e"
  and fault_of_None: "fault_of r = None \<longleftrightarrow> r = Inr (projr r)"
  by (auto simp: fault_of_def split: sum.splits)

lemma clash_steps:
  "fault_of clash_middle = None" "\<not> exiting (projr clash_middle)"
  "fault_of (main_iteration clash (fst (held clash_one)) [] (projr clash_middle)) = Some DanglingDeref"
  by code_simp+

section \<open>The LEDs of new fans\<close>

text \<open>The bench with \<open>status\<close> in the memory that \<open>malloc\<close> hands out for a fan.\<close>

definition bench_with_memory :: "fanstatus \<Rightarrow> (string list, bench_dev) services" where
  "bench_with_memory status = bench\<lparr>junk_fan := (\<lambda>_. bench_junk_fan\<lparr>fan_status := status\<rparr>)\<rparr>"

definition first_writes :: "fanstatus \<Rightarrow> (i2c_bit_op \<times> u8) list" where
  "first_writes status = dev_writes (bus (projr (fand_reconfigure (bench_with_memory status) bench_start)))"

section \<open>Iterations without a change in the database\<close>

text \<open>Reading and publishing do not use the bus for writing.\<close>

lemma fan_fru_get_no_write:
  "fan_fru_get (E\<lparr>i2c_reg_write := f\<rparr>) y name fan = fan_fru_get E y name fan"
proof -
  have "fan_fru_scan (E\<lparr>i2c_reg_write := f\<rparr>) y name fan idxs = fan_fru_scan E y name fan idxs" for idxs
    by (induction idxs) (simp_all add: res_bind_def split: sum.splits)
  then show ?thesis by (simp add: fan_fru_get_def)
qed

lemma no_write_fields:
  "i2c_reg_read (E\<lparr>i2c_reg_write := f\<rparr>) = i2c_reg_read E"
  "junk_u32 (E\<lparr>i2c_reg_write := f\<rparr>) = junk_u32 E"
  "yaml_get_fan_info (E\<lparr>i2c_reg_write := f\<rparr>) = yaml_get_fan_info E"
  "hash_bucket (E\<lparr>i2c_reg_write := f\<rparr>) = hash_bucket E"
  "commit_ok (E\<lparr>i2c_reg_write := f\<rparr>) = commit_ok E"
  by simp_all

lemma readers_no_write:
  "fand_read_fan_fru_direction (E\<lparr>i2c_reg_write := f\<rparr>) y name fru info w =
     fand_read_fan_fru_direction E y name fru info w"
  "fand_read_present (E\<lparr>i2c_reg_write := f\<rparr>) y name p w = fand_read_present E y name p w"
  "fand_read_rpm (E\<lparr>i2c_reg_write := f\<rparr>) y name fan w = fand_read_rpm E y name fan w"
  "fand_read_status_reg (E\<lparr>i2c_reg_write := f\<rparr>) y name fan w = fand_read_status_reg E y name fan w"
  unfolding fand_read_fan_fru_direction_def fand_read_present_def fand_read_rpm_def
      fand_read_status_reg_def no_write_fields by (rule refl)+

lemma fand_read_direction_no_write:
  "fand_read_direction (E\<lparr>i2c_reg_write := f\<rparr>) y name fan w = fand_read_direction E y name fan w"
  unfolding fand_read_direction_def fan_fru_get_no_write readers_no_write no_write_fields
  by (rule refl)

lemma fand_read_fan_status_no_write:
  "fand_read_fan_status (E\<lparr>i2c_reg_write := f\<rparr>) fa s = fand_read_fan_status E fa s"
  unfolding fand_read_fan_status_def fan_fru_get_no_write readers_no_write
    fand_read_direction_no_write by (rule refl)

lemma fand_read_status_no_write:
  "fand_read_status (E\<lparr>i2c_reg_write := f\<rparr>) = fand_read_status E"
  unfolding fand_read_status_def read_all_fans_def read_subsystem_fans_def read_registered_fan_def
    fand_read_fan_status_no_write publish_status_def publish_row_def commit_block_def
    no_write_fields by (rule refl)

text \<open>The bench between two changes of the database, with one fan, which starts to fail.\<close>

definition bench_failing :: "(string list, bench_dev) fand" where
  "bench_failing = (bench_fand ((bench_sub FAND_SPEED_NONE FAND_SPEED_SLOW)
       \<lparr>subsystem_fans := [(''base-1L'', 5)]\<rparr>))
     \<lparr>fan_heap := [5 \<mapsto> bench_junk_fan\<lparr>fan_name := ''base-1L'', fan_subsystem := 1,
        fan_yaml := bench_fan 101 ''1L'' 21 None 31, fan_status := FAND_STATUS_OK\<rparr>],
      bus := bench_bus\<lparr>dev_regs := bench_regs(31 := 1)\<rparr>\<rparr>"

definition failing_input :: idl_input where
  "failing_input = \<lparr>in_db = bench_db\<lparr>db_fans :=
       [\<lparr>row_uuid = 1, row_name = ''base-1L'', row_status = ''ok'', row_direction = ''f2b'',
         row_speed = ''slow'', row_rpm = Some 6000\<rparr>]\<rparr>,
     in_lock_contended = False, in_has_lock = True\<rparr>"

lemma failing_run:
  "fault_of (fand_run bench failing_input bench_failing) = None"
  "map row_status (db_fans (idl_db (projr (fand_run bench failing_input bench_failing)))) = [''fault'']"
  "dev_writes (bus (projr (fand_run bench failing_input bench_failing))) = []"
  by code_simp+

lemma failing_seqno: "db_seqno (in_db failing_input) = idl_seqno bench_failing"
  by code_simp

section \<open>Properties\<close>

text \<open>C19: Names with dashes. Two subsystems with different names, each with fans of different
  names, can give the daemon the same fan name twice; when the first one is removed from the
  database, the sweep takes the wrong entry out of the table of all fans and frees the other
  fan, and the next publication reads the freed object.\<close>

theorem dash_names_use_after_free:
  "main_loop clash bench_bus (clash_db [] [] 0) [held clash_both, held clash_one] (Inl DanglingDeref) \<and>
   map row_name (db_fans clash_one) = [''a-b-c'']"
proof -
  have start: "main_loop clash bench_bus (clash_db [] [] 0) [] (Inr clash_start)"
    unfolding clash_start_def by (rule main_loop.start)
  have "\<not> exiting clash_start" by (simp add: clash_start_def main_start_def)
  from main_loop.iterate [OF start this, of "fst (held clash_both)" "[]"]
  have "main_loop clash bench_bus (clash_db [] [] 0) [held clash_both] (Inr (projr clash_middle))"
    using clash_steps(1) by (simp add: clash_middle_def fault_of_None held_def)
  from main_loop.iterate [OF this clash_steps(2), of "fst (held clash_one)" "[]"]
  have "main_loop clash bench_bus (clash_db [] [] 0) [held clash_both, held clash_one] (Inl DanglingDeref)"
    using clash_steps(3) by (simp add: fault_of_Some held_def)
  moreover have "map row_name (db_fans clash_one) = [''a-b-c'']" by code_simp
  ultimately show ?thesis ..
qed


text \<open>C18: LEDs and speed controls follow the database, not the fans. In an iteration whose
  replica has the sequence number of the last reconfiguration no register is written, so the
  outcome does not depend on how writes behave: a fan that starts to fail is published in the
  database, but its LED and that of the subsystem keep what they showed.\<close>

theorem unchanged_database_writes_no_register:
  assumes "db_seqno (in_db inp) = idl_seqno s"
  shows "fand_run (E\<lparr>i2c_reg_write := f\<rparr>) inp s = fand_run E inp s"
  using assms by (simp add: fand_run_def fand_reconfigure_def fand_read_status_no_write Let_def)

theorem unchanged_database_writes_no_register_witness:
  "\<exists>t. fand_run bench failing_input bench_failing = Inr t \<and>
     (\<forall>f. fand_run (bench\<lparr>i2c_reg_write := f\<rparr>) failing_input bench_failing = Inr t) \<and>
     map row_status (db_fans (idl_db t)) = [''fault''] \<and> dev_writes (bus t) = []"
proof (intro exI conjI allI)
  let ?t = "projr (fand_run bench failing_input bench_failing)"
  show run: "fand_run bench failing_input bench_failing = Inr ?t"
    using failing_run(1) by (simp only: fault_of_None)
  show "fand_run (bench\<lparr>i2c_reg_write := f\<rparr>) failing_input bench_failing = Inr ?t" for f
    using unchanged_database_writes_no_register [OF failing_seqno, of f bench] run by simp
qed (rule failing_run(2), rule failing_run(3))

end
