(* ===== verification/Options.thy ===== *)
theory Options
  imports Daemon
begin

text \<open>
  Starting the daemon: \<open>parse_options\<close>, \<open>usage\<close> and the part of \<open>main\<close> before the loop
  (\<open>src/fand.c\<close>).

  \<open>getopt_long\<close>, the option handlers that Open vSwitch's macros add to the switch and its
  printing functions are parameters. What the code sees of \<open>getopt_long\<close> are its results
  until it answers -1 and the arguments left behind \<open>optind\<close>.
\<close>

section \<open>Services and state\<close>

text \<open>
  The cases of the switch; \<open>OPT_MACRO n\<close> is any other value. \<open>macro_handlers\<close> answers
  \<open>None\<close> for a value without a case label among the macros, and a handler may end the process.
\<close>

datatype option_code =
    OPT_HELP | OPT_VERSION | OPT_UNIXCTL | OPT_PEER_CA_CERT | OPT_BOOTSTRAP_CA_CERT
  | OPT_QUESTION | OPT_MACRO nat

datatype process_end = EXIT_SUCCESS | EXIT_FAILURE | Aborted | Fatal string

text \<open>\<open>'l\<close> is the state of the logging, daemon and SSL modules.\<close>

record 'l start_services =
  getopt_long :: "string list \<Rightarrow> (option_code \<times> string option) list"
  getopt_rest :: "string list \<Rightarrow> string list"
  macro_handlers :: "nat \<Rightarrow> string option \<Rightarrow> 'l \<Rightarrow> (process_end + 'l) option"
  stream_ssl_set_peer_ca_cert_file :: "string option \<Rightarrow> 'l \<Rightarrow> 'l"
  stream_ssl_set_ca_cert_file :: "string option \<Rightarrow> bool \<Rightarrow> 'l \<Rightarrow> 'l"
  ovs_rundir :: string
  program_name :: string
  version_text :: string
  stream_usage :: "string \<Rightarrow> bool \<Rightarrow> bool \<Rightarrow> bool \<Rightarrow> string"
  daemon_usage :: string
  vlog_usage :: string
  unixctl_server_create :: "string option \<Rightarrow> int"

text \<open>The control socket's path, the modules, and the standard output.\<close>

record 'l options =
  unixctl_path :: "string option"
  modules :: 'l
  stdout :: string

section \<open>The code\<close>

definition usage_text :: "'l start_services \<Rightarrow> string" where
  "usage_text P =
     program_name P @ '': OpenSwitch fand daemon'' @ newline @
     ''usage: '' @ program_name P @ '' [OPTIONS] [DATABASE]'' @ newline @
     ''where DATABASE is a socket on which ovsdb-server is listening'' @ newline @
     ''      (default: '' @ [CHR 0x22] @ ''unix:'' @ ovs_rundir P @ ''/db.sock'' @ [CHR 0x22] @ '').'' @ newline @
     stream_usage P ''DATABASE'' True False True @ daemon_usage P @ vlog_usage P @
     newline @ ''Other options:'' @ newline @
     ''  --unixctl=SOCKET        override default control socket name'' @ newline @
     ''  -h, --help              display this help message'' @ newline @
     ''  -V, --version           display version information'' @ newline"

definition print :: "string \<Rightarrow> 'l options \<Rightarrow> 'l options" where
  "print str opts = opts\<lparr>stdout := stdout opts @ str\<rparr>"

definition usage ::
  "'l start_services \<Rightarrow> 'l options \<Rightarrow> process_end \<times> 'l options" where
  "usage P opts = (EXIT_SUCCESS, print (usage_text P) opts)"

text \<open>One iteration of the option loop.\<close>

definition handle_option ::
  "'l start_services \<Rightarrow> option_code \<times> string option \<Rightarrow> 'l options
     \<Rightarrow> (process_end \<times> 'l options) + 'l options" where
  "handle_option P = (\<lambda>(c, optarg) opts.
     (case c of
        OPT_HELP \<Rightarrow> Inl (usage P opts)
      | OPT_VERSION \<Rightarrow> Inl (EXIT_SUCCESS, print (version_text P) opts)
      | OPT_UNIXCTL \<Rightarrow> Inr (opts\<lparr>unixctl_path := optarg\<rparr>)
      | OPT_PEER_CA_CERT \<Rightarrow>
          Inr (opts\<lparr>modules := stream_ssl_set_peer_ca_cert_file P optarg (modules opts)\<rparr>)
      | OPT_BOOTSTRAP_CA_CERT \<Rightarrow>
          Inr (opts\<lparr>modules := stream_ssl_set_ca_cert_file P optarg True (modules opts)\<rparr>)
      | OPT_QUESTION \<Rightarrow> Inl (EXIT_FAILURE, opts)
      | OPT_MACRO n \<Rightarrow>
          (case macro_handlers P n optarg (modules opts) of
             None \<Rightarrow> Inl (Aborted, opts)
           | Some (Inl e) \<Rightarrow> Inl (e, opts)
           | Some (Inr l) \<Rightarrow> Inr (opts\<lparr>modules := l\<rparr>))))"

fun option_loop ::
  "'l start_services \<Rightarrow> (option_code \<times> string option) list \<Rightarrow> 'l options
     \<Rightarrow> (process_end \<times> 'l options) + 'l options" where
  "option_loop P [] opts = Inr opts"
| "option_loop P (c # cs) opts =
     (case handle_option P c opts of
        Inl e \<Rightarrow> Inl e
      | Inr opts \<Rightarrow> option_loop P cs opts)"

definition parse_options ::
  "'l start_services \<Rightarrow> string list \<Rightarrow> 'l options
     \<Rightarrow> (process_end \<times> 'l options) + string \<times> 'l options" where
  "parse_options P argv opts =
     (case option_loop P (getopt_long P argv) opts of
        Inl e \<Rightarrow> Inl e
      | Inr opts \<Rightarrow>
          (case getopt_rest P argv of
             [] \<Rightarrow> Inr (''unix:'' @ ovs_rundir P @ ''/db.sock'', opts)
           | [database] \<Rightarrow> Inr (database, opts)
           | _ \<Rightarrow> Inl (Fatal ''at most one non-option argument accepted; use --help for usage'', opts)))"

text \<open>
  \<open>main\<close> up to the loop: the remote and the daemon it starts with, or the end of the
  process. \<open>unixctl_path\<close> is NULL at first.
\<close>

definition main_setup ::
  "'l start_services \<Rightarrow> ('y, 'w) services \<Rightarrow> 'w \<Rightarrow> (string \<Rightarrow> ovsdb) \<Rightarrow> string list \<Rightarrow> 'l
     \<Rightarrow> (process_end \<times> 'l options) + (string \<times> 'l options \<times> ('y, 'w) daemon)" where
  "main_setup P E w ovsdb_idl_create argv l =
     (case parse_options P argv \<lparr>unixctl_path = None, modules = l, stdout = ''''\<rparr> of
        Inl e \<Rightarrow> Inl e
      | Inr (remote, opts) \<Rightarrow>
          if unixctl_server_create P (unixctl_path opts) \<noteq> 0 then Inl (EXIT_FAILURE, opts)
          else Inr (remote, opts, main_start E w (ovsdb_idl_create remote)))"

section \<open>The option loop\<close>

fun_cases option_loop_InrE: "option_loop P (c # cs) opts = Inr opts'"

text \<open>The options after which \<open>getopt_long\<close> is not called again.\<close>

definition ends_parsing :: "option_code \<Rightarrow> bool" where
  "ends_parsing c \<longleftrightarrow> c \<in> {OPT_HELP, OPT_VERSION, OPT_QUESTION}"

text \<open>The argument of the last \<open>--unixctl\<close>.\<close>

definition last_unixctl :: "(option_code \<times> string option) list \<Rightarrow> string option \<Rightarrow> string option" where
  "last_unixctl cs path = fold (\<lambda>(c, optarg) path. if c = OPT_UNIXCTL then optarg else path) cs path"

lemma handle_option_Inr:
  assumes "handle_option P (c, optarg) opts = Inr opts'"
  shows "\<not> ends_parsing c" and "stdout opts' = stdout opts"
    and "unixctl_path opts' = (if c = OPT_UNIXCTL then optarg else unixctl_path opts)"
  using assms
  by (auto simp: handle_option_def ends_parsing_def split: option_code.splits option.splits sum.splits)

lemma option_loop_Inr:
  assumes "option_loop P cs opts = Inr opts'"
  shows "(\<forall>c \<in> set cs. \<not> ends_parsing (fst c)) \<and> stdout opts' = stdout opts \<and>
    unixctl_path opts' = last_unixctl cs (unixctl_path opts)"
  using assms
proof (induction cs arbitrary: opts)
  case (Cons c cs)
  from Cons.prems obtain o1 where o1: "handle_option P c opts = Inr o1" "option_loop P cs o1 = Inr opts'"
    by (rule option_loop_InrE) (auto split: sum.splits)
  from Cons.IH [OF o1(2)] handle_option_Inr [of P "fst c" "snd c" opts o1] o1(1)
  show ?case by (cases c) (simp add: last_unixctl_def)
qed (simp add: last_unixctl_def)

lemma option_loop_append:
  "option_loop P (cs @ ds) opts =
     (case option_loop P cs opts of Inl e \<Rightarrow> Inl e | Inr opts \<Rightarrow> option_loop P ds opts)"
  by (induction cs arbitrary: opts) (auto split: sum.splits)

section \<open>Properties\<close>

text \<open>C37: Starting the daemon. If the command line lets \<open>main\<close> reach its loop, then no option
  asked for help or the version or was unknown, at most one argument is left and it is the
  database's address, with the default socket without one, the control socket was created with
  the argument of the last \<open>--unixctl\<close> or the default path, nothing was printed, and the loop
  starts from the state of \<open>fand_init\<close>.\<close>

theorem main_setup_reaches_loop:
  assumes "main_setup P E w create argv l = Inr (remote, opts, d)"
  shows "(\<forall>c \<in> set (getopt_long P argv). \<not> ends_parsing (fst c)) \<and>
    (getopt_rest P argv = [] \<and> remote = ''unix:'' @ ovs_rundir P @ ''/db.sock'' \<or>
     getopt_rest P argv = [remote]) \<and>
    unixctl_path opts = last_unixctl (getopt_long P argv) None \<and>
    unixctl_server_create P (unixctl_path opts) = 0 \<and> stdout opts = '''' \<and>
    main_loop E w (create remote) [] (Inr d) \<and> \<not> exiting d"
proof -
  let ?start = "\<lparr>unixctl_path = None, modules = l, stdout = ''''\<rparr>"
  have parsed: "parse_options P argv ?start = Inr (remote, opts)"
    and server: "unixctl_server_create P (unixctl_path opts) = 0"
    and d: "d = main_start E w (create remote)"
    using assms by (auto simp: main_setup_def split: sum.splits if_splits)
  from parsed have loop: "option_loop P (getopt_long P argv) ?start = Inr opts"
    and rest: "getopt_rest P argv = [] \<and> remote = ''unix:'' @ ovs_rundir P @ ''/db.sock'' \<or>
      getopt_rest P argv = [remote]"
    by (auto simp: parse_options_def split: sum.splits list.splits)
  have "main_loop E w (create remote) [] (Inr d)" unfolding d by (rule main_loop.start)
  moreover have "\<not> exiting d" by (simp add: d main_start_def)
  ultimately show ?thesis using option_loop_Inr [OF loop] rest server by simp
qed

text \<open>C38: Options are taken in order. Once an option that ends the parsing is reached, what it
  does is decided by the options before it alone: help prints the usage and version the version
  text, both with success, an unknown option exits with failure, and neither later options nor
  too many arguments change that.\<close>

theorem first_ending_option_decides:
  assumes "getopt_long P argv = cs @ (c, optarg) # ds" and "option_loop P cs opts = Inr opts'"
    and "ends_parsing c"
  shows "parse_options P argv opts = Inl
    (if c = OPT_HELP then (EXIT_SUCCESS, opts'\<lparr>stdout := stdout opts @ usage_text P\<rparr>)
     else if c = OPT_VERSION then (EXIT_SUCCESS, opts'\<lparr>stdout := stdout opts @ version_text P\<rparr>)
     else (EXIT_FAILURE, opts'))"
proof -
  have "stdout opts' = stdout opts" using option_loop_Inr [OF assms(2)] by simp
  with assms show ?thesis
    by (auto simp: parse_options_def option_loop_append handle_option_def usage_def print_def
        ends_parsing_def)
qed

text \<open>A process started with two control sockets, a macro option and a database; and one that
  asks for help.\<close>

definition bench_start_services ::
  "(option_code \<times> string option) list \<Rightarrow> string list \<Rightarrow> nat start_services" where
  "bench_start_services cs rest =
     \<lparr>getopt_long = (\<lambda>_. cs), getopt_rest = (\<lambda>_. rest),
      macro_handlers = (\<lambda>n _ l. if n = 0 then Some (Inr (Suc l)) else None),
      stream_ssl_set_peer_ca_cert_file = (\<lambda>_ l. l), stream_ssl_set_ca_cert_file = (\<lambda>_ _ l. l),
      ovs_rundir = ''/var/run/openvswitch'', program_name = ''ops-fand'',
      version_text = ''ops-fand'', stream_usage = (\<lambda>_ _ _ _. ''''), daemon_usage = '''',
      vlog_usage = '''', unixctl_server_create = (\<lambda>_. 0)\<rparr>"

theorem main_setup_reaches_loop_witness:
  "\<exists>opts d. main_setup (bench_start_services [(OPT_UNIXCTL, Some ''/a''), (OPT_MACRO 0, None),
      (OPT_UNIXCTL, Some ''/b'')] [''tcp:db'']) bench bench_bus (\<lambda>_. bench_db) [] 0 =
      Inr (''tcp:db'', opts, d) \<and> unixctl_path opts = Some ''/b''"
proof -
  let ?P = "bench_start_services [(OPT_UNIXCTL, Some ''/a''), (OPT_MACRO 0, None),
      (OPT_UNIXCTL, Some ''/b'')] [''tcp:db'']"
  obtain opts d where run: "main_setup ?P bench bench_bus (\<lambda>_. bench_db) [] 0 = Inr (''tcp:db'', opts, d)"
    by (simp add: main_setup_def parse_options_def handle_option_def bench_start_services_def)
  from main_setup_reaches_loop [OF run] have "unixctl_path opts = Some ''/b''"
    by (simp add: bench_start_services_def last_unixctl_def)
  with run show ?thesis by blast
qed

theorem first_ending_option_decides_witness:
  "fst (projl (parse_options (bench_start_services [(OPT_MACRO 0, None), (OPT_HELP, None), (OPT_MACRO 1, None)]
      [''a'', ''b'']) [] \<lparr>unixctl_path = None, modules = 0, stdout = ''''\<rparr>)) = EXIT_SUCCESS"
proof -
  let ?P = "bench_start_services [(OPT_MACRO 0, None), (OPT_HELP, None), (OPT_MACRO 1, None)] [''a'', ''b'']"
  have "getopt_long ?P [] = [(OPT_MACRO 0, None)] @ (OPT_HELP, None) # [(OPT_MACRO 1, None)]"
    "option_loop ?P [(OPT_MACRO 0, None)] \<lparr>unixctl_path = None, modules = 0, stdout = ''''\<rparr> =
      Inr \<lparr>unixctl_path = None, modules = Suc 0, stdout = ''''\<rparr>" "ends_parsing OPT_HELP"
    by (simp_all add: bench_start_services_def handle_option_def ends_parsing_def)
  from first_ending_option_decides [OF this] show ?thesis by simp
qed

end
