(* ===== verification/Main_Program.thy ===== *)
theory Main_Program
  imports Options Run
begin

text \<open>
  The program as a whole: \<open>main\<close> of \<open>src/fand.c\<close> from the command line to its return, as one
  function of what the database and the clients of the control socket do. It contains the
  dispatch of requests to the registered commands, what the process sleeps on between two
  iterations, and the cleanup after the loop.
\<close>

section \<open>The control socket\<close>

text \<open>
  The arguments of \<open>unixctl_command_register\<close>, in the order of the calls: \<open>main\<close> registers
  \<open>exit\<close>, then \<open>fand_init\<close> the dump. The library hands a request to a callback only if its
  number of arguments is in the registered range, and answers all other requests itself.
\<close>

record registration =
  cmd_name :: string
  cmd_min_args :: nat
  cmd_max_args :: nat
  cmd_callback :: command

definition exit_registration :: registration where
  "exit_registration =
     \<lparr>cmd_name = ''exit'', cmd_min_args = 0, cmd_max_args = 0, cmd_callback = Exit\<rparr>"

definition dump_registration :: registration where
  "dump_registration =
     \<lparr>cmd_name = ''ops-fand/dump'', cmd_min_args = 0, cmd_max_args = 0, cmd_callback = Dump\<rparr>"

definition registered_commands :: "registration list" where
  "registered_commands = [exit_registration, dump_registration]"

lemmas registrations = registered_commands_def exit_registration_def dump_registration_def

text \<open>A request is the name and the arguments that a client sent.\<close>

type_synonym request = "string \<times> string list"

definition dispatch :: "request \<Rightarrow> command option" where
  "dispatch = (\<lambda>(name, args).
     (case find (\<lambda>r. cmd_name r = name) registered_commands of
        None \<Rightarrow> None
      | Some r \<Rightarrow>
          if cmd_min_args r \<le> length args \<and> length args \<le> cmd_max_args r
          then Some (cmd_callback r) else None))"

definition callbacks :: "request list \<Rightarrow> command list" where
  "callbacks = List.map_filter dispatch"

section \<open>Waiting\<close>

text \<open>What \<open>poll_block\<close> was told to wake up for, in order; the timer is in milliseconds.\<close>

datatype wake = Wake_Idl | Wake_Timer c_int | Wake_Unixctl | Wake_Immediately

definition FAN_POLL_INTERVAL :: c_int where "FAN_POLL_INTERVAL = 5"
definition MSEC_PER_SEC :: c_int where "MSEC_PER_SEC = 1000"

definition fand_wait :: "wake list" where
  "fand_wait = [Wake_Idl, Wake_Timer (FAN_POLL_INTERVAL * MSEC_PER_SEC)]"

definition loop_waits :: "bool \<Rightarrow> wake list" where
  "loop_waits exit = fand_wait @ [Wake_Unixctl] @ (if exit then [Wake_Immediately] else [])"

section \<open>The program\<close>

text \<open>What the process does to the libraries besides, in order.\<close>

datatype process_step = Poll_Block "wake list" | Idl_Destroy | Unixctl_Server_Destroy

definition fand_exit :: "process_step list" where
  "fand_exit = [Idl_Destroy]"

text \<open>
  The loop over the inputs of its iterations, each with the requests that \<open>unixctl_server_run\<close>
  serves. It ends early with \<open>exiting\<close>, or at the end of the inputs, where the process is
  left in the middle of its work.
\<close>

fun while_loop ::
  "('y, 'w) services \<Rightarrow> (idl_input \<times> request list) list \<Rightarrow> ('y, 'w) daemon \<Rightarrow> process_step list
     \<Rightarrow> (('y, 'w) daemon \<times> process_step list) res" where
  "while_loop E [] d steps = Inr (d, steps)"
| "while_loop E ((inp, requests) # ins) d steps =
     (if exiting d then Inr (d, steps)
      else res_bind (main_iteration E inp (callbacks requests) d) (\<lambda>d.
             while_loop E ins d (steps @ [Poll_Block (loop_waits (exiting d))])))"

text \<open>
  What became of the process: ended before the loop, crashed, still running, or returned from
  \<open>main\<close> with a value.
\<close>

datatype ('y, 'w, 'l) outcome =
    Ended process_end "'l options"
  | Crashed fault
  | Running "('y, 'w) daemon" "process_step list"
  | Returned int "('y, 'w) daemon" "process_step list"

definition main_program ::
  "'l start_services \<Rightarrow> ('y, 'w) services \<Rightarrow> 'w \<Rightarrow> (string \<Rightarrow> ovsdb) \<Rightarrow> string list \<Rightarrow> 'l
     \<Rightarrow> (idl_input \<times> request list) list \<Rightarrow> ('y, 'w, 'l) outcome" where
  "main_program P E w ovsdb_idl_create argv l ins =
     (case main_setup P E w ovsdb_idl_create argv l of
        Inl (e, opts) \<Rightarrow> Ended e opts
      | Inr (remote, opts, d) \<Rightarrow>
          (case while_loop E ins d [] of
             Inl f \<Rightarrow> Crashed f
           | Inr (d, steps) \<Rightarrow>
               if exiting d then Returned 0 d (steps @ fand_exit @ [Unixctl_Server_Destroy])
               else Running d steps))"

section \<open>Requests and rounds\<close>

lemma dispatch_Exit [simp]: "dispatch r = Some Exit \<longleftrightarrow> r = (''exit'', [])"
  by (cases r) (auto simp: dispatch_def registrations split: if_splits)

lemma dispatch_Dump [simp]: "dispatch r = Some Dump \<longleftrightarrow> r = (''ops-fand/dump'', [])"
  by (cases r) (auto simp: dispatch_def registrations split: if_splits)

lemma in_callbacks: "c \<in> set (callbacks requests) \<longleftrightarrow> Some c \<in> dispatch ` set requests"
  by (induction requests) (auto simp: callbacks_def image_iff split: option.splits)

lemma Exit_in_callbacks [simp]: "Exit \<in> set (callbacks requests) \<longleftrightarrow> (''exit'', []) \<in> set requests"
  unfolding in_callbacks image_iff by (metis dispatch_Exit)

text \<open>The rounds before the first exit request.\<close>

definition quiet_rounds :: "(idl_input \<times> request list) list \<Rightarrow> (idl_input \<times> request list) list" where
  "quiet_rounds = takeWhile (\<lambda>(inp, requests). (''exit'', []) \<notin> set requests)"

lemma quiet_rounds_simps [simp]:
  "quiet_rounds [] = []"
  "quiet_rounds ((inp, requests) # ins) =
     (if (''exit'', []) \<in> set requests then [] else (inp, requests) # quiet_rounds ins)"
  by (simp_all add: quiet_rounds_def)

text \<open>The inputs of the loop up to the round of the first exit request.\<close>

definition loop_inputs :: "(idl_input \<times> request list) list \<Rightarrow> (idl_input \<times> command list) list" where
  "loop_inputs ins = map (map_prod id callbacks) (take (Suc (length (quiet_rounds ins))) ins)"

lemma loop_inputs_simps [simp]:
  "loop_inputs [] = []"
  "loop_inputs ((inp, requests) # ins) =
     (inp, callbacks requests) # (if (''exit'', []) \<in> set requests then [] else loop_inputs ins)"
  by (simp_all add: loop_inputs_def)

lemma loop_waits_simps [simp]:
  "loop_waits False = [Wake_Idl, Wake_Timer 5000, Wake_Unixctl]"
  "loop_waits True = [Wake_Idl, Wake_Timer 5000, Wake_Unixctl, Wake_Immediately]"
  by (simp_all add: loop_waits_def fand_wait_def FAN_POLL_INTERVAL_def MSEC_PER_SEC_def)

section \<open>The loop function is the loop relation\<close>

lemma while_loop_exiting: "exiting d \<Longrightarrow> while_loop E ins d steps = Inr (d, steps)"
  by (cases ins) auto

text \<open>A result of the loop after which nothing is served.\<close>

definition loop_over :: "('y, 'w) daemon res \<Rightarrow> bool" where
  "loop_over r \<longleftrightarrow> (case r of Inl f \<Rightarrow> True | Inr d \<Rightarrow> exiting d)"

text \<open>
  Continued from any state that the relation reaches, the function takes the relation's steps on
  as many of the inputs as the loop lives through.
\<close>

lemma while_loop_main_loop:
  assumes "main_loop E w db before (Inr d)"
  shows "\<exists>n \<le> length ins.
     main_loop E w db (before @ map (map_prod id callbacks) (take n ins))
       (map_sum id fst (while_loop E ins d steps)) \<and>
     (n = length ins \<or> loop_over (map_sum id fst (while_loop E ins d steps)))"
  using assms
proof (induction ins arbitrary: before d steps)
  case Nil
  then show ?case by simp
next
  case (Cons i ins)
  obtain inp requests where i: "i = (inp, requests)" by (cases i)
  show ?case
  proof (cases "exiting d")
    case True
    with Cons.prems show ?thesis
      by (intro exI [of _ 0]) (simp add: i while_loop_exiting loop_over_def)
  next
    case False
    note step = main_loop.iterate [OF Cons.prems False, of inp "callbacks requests"]
    show ?thesis
    proof (cases "main_iteration E inp (callbacks requests) d")
      case (Inl g)
      with step False show ?thesis by (intro exI [of _ 1]) (simp add: i loop_over_def)
    next
      case (Inr d1)
      let ?steps = "steps @ [Poll_Block (loop_waits (exiting d1))]"
      from step Inr have "main_loop E w db (before @ [(inp, callbacks requests)]) (Inr d1)" by simp
      from Cons.IH [OF this, of ?steps] obtain n where "n \<le> length ins"
        "main_loop E w db (before @ (inp, callbacks requests) # map (map_prod id callbacks) (take n ins))
          (map_sum id fst (while_loop E ins d1 ?steps))"
        "n = length ins \<or> loop_over (map_sum id fst (while_loop E ins d1 ?steps))"
        unfolding append_assoc append.simps by (elim exE conjE) (rule that)
      with Inr False show ?thesis by (intro exI [of _ "Suc n"]) (simp add: i id_def)
    qed
  qed
qed

text \<open>With the contracts of the platform the loop serves exactly the rounds it should.\<close>

lemma while_loop_serves:
  assumes plat: "platform E cat" and "running E cat tbl (proc d)" and "\<not> exiting d"
    and "main_loop E w db before (Inr d)"
    and "\<forall>(inp, requests) \<in> set ins. consistent cat tbl (in_db inp)"
  shows "\<exists>e. while_loop E ins d steps = Inr (e, steps @
       replicate (length (quiet_rounds ins)) (Poll_Block (loop_waits False)) @
       (if quiet_rounds ins = ins then [] else [Poll_Block (loop_waits True)])) \<and>
     running E cat tbl (proc e) \<and> exiting e = (quiet_rounds ins \<noteq> ins) \<and>
     main_loop E w db (before @ loop_inputs ins) (Inr e)"
  using assms(2-5)
proof (induction ins arbitrary: before d steps)
  case Nil
  then show ?case by simp
next
  case (Cons i ins)
  obtain inp requests where i: "i = (inp, requests)" by (cases i)
  have db: "consistent cat tbl (in_db inp)" using Cons.prems(4) i by simp
  obtain e where e: "main_iteration E inp (callbacks requests) d = Inr e"
    "running E cat tbl (proc e)" "exiting e = ((''exit'', []) \<in> set requests)"
    by (rule main_iteration_ok [OF plat Cons.prems(1) db, of "callbacks requests"])
      (use Cons.prems(2) in simp)
  have step: "main_loop E w db (before @ [(inp, callbacks requests)]) (Inr e)"
    using main_loop.iterate [OF Cons.prems(3,2), of inp "callbacks requests"] e(1) by simp
  show ?case
  proof (cases "(''exit'', []) \<in> set requests")
    case True
    with e step Cons.prems(2) show ?thesis by (simp add: i while_loop_exiting)
  next
    case False
    with e(3) have "\<not> exiting e" by simp
    from Cons.IH [OF e(2) this step, of "steps @ [Poll_Block (loop_waits False)]"] Cons.prems(2,4)
      False e(1,3) show ?thesis
      by (simp add: i)
  qed
qed

section \<open>Properties\<close>

text \<open>C15: The whole program. If the command line lets the daemon start, then on a platform that
  keeps its contracts \<open>main\<close> serves one round after the other, sleeps after each until the
  database or a client has something or five seconds have passed, and goes on without end while
  nobody sends \<open>exit\<close> without arguments. After the round of the first such request it does not
  sleep, takes down the database connection and the control socket in this order and returns 0.
  Its final state is that of the main loop on the rounds it served.\<close>

theorem main_program_serves_until_exit:
  assumes "main_setup P E w create argv l = Inr (remote, opts, d0)" and "platform E cat"
    and "tbl (db_seqno (create remote)) = []"
    and "\<forall>(inp, requests) \<in> set ins. consistent cat tbl (in_db inp)"
  shows "let quiet = takeWhile (\<lambda>(inp, requests). (''exit'', []) \<notin> set requests) ins;
      sleeps = replicate (length quiet) (Poll_Block [Wake_Idl, Wake_Timer 5000, Wake_Unixctl]) in
    \<exists>d. main_program P E w create argv l ins =
        (if quiet = ins then Running d sleeps
         else Returned 0 d (sleeps @
           [Poll_Block [Wake_Idl, Wake_Timer 5000, Wake_Unixctl, Wake_Immediately],
            Idl_Destroy, Unixctl_Server_Destroy])) \<and>
      main_loop E w (create remote) (loop_inputs ins) (Inr d) \<and> running E cat tbl (proc d)"
proof -
  have d0: "d0 = main_start E w (create remote)"
    using assms(1) by (auto simp: main_setup_def split: sum.splits if_splits)
  have start: "main_loop E w (create remote) [] (Inr d0)" unfolding d0 by (rule main_loop.start)
  have "running E cat tbl (proc d0)" and "\<not> exiting d0"
    using running_init [where tbl = tbl and db = "create remote", OF assms(3)]
    by (simp_all add: d0 main_start_def)
  from while_loop_serves [OF assms(2) this start assms(4), of "[]"] obtain e where
    "while_loop E ins d0 [] = Inr (e, replicate (length (quiet_rounds ins)) (Poll_Block (loop_waits False)) @
       (if quiet_rounds ins = ins then [] else [Poll_Block (loop_waits True)]))"
    "running E cat tbl (proc e)" "exiting e = (quiet_rounds ins \<noteq> ins)"
    "main_loop E w (create remote) (loop_inputs ins) (Inr e)"
    by auto
  then show ?thesis
    using assms(1) unfolding quiet_rounds_def [symmetric] Let_def
    by (intro exI [of _ e]) (simp add: main_program_def fand_exit_def)
qed


end
