(* ===== verification/Idl.thy ===== *)
theory Idl
  imports Daemon
begin

text \<open>
  What the daemon tells the database client library at start-up (\<open>fand_init\<close> of
  \<open>src/fand.c\<close>): the columns of the replica it wants, and those whose changes must not wake
  it. The columns that the daemon itself writes are shown to be among the latter, on every
  path, so that its own writes never make it reconfigure and never violate the library's
  write-only verification.
\<close>

section \<open>The calls of \<open>fand_init\<close>\<close>

text \<open>Columns by table and name; the calls are recorded in order.\<close>

type_synonym column = "string \<times> string"

datatype idl_call =
    Idl_set_lock string
  | Idl_verify_write_only
  | Idl_add_table string
  | Idl_add_column column
  | Idl_omit_alert column

definition fand_idl_calls :: "idl_call list" where
  "fand_idl_calls =
     [Idl_set_lock ''ops_fand'',
      Idl_verify_write_only,
      Idl_add_table ''daemon'',
      Idl_add_column (''daemon'', ''name''),
      Idl_add_column (''daemon'', ''cur_hw''),
      Idl_omit_alert (''daemon'', ''cur_hw''),
      Idl_add_table ''fan'',
      Idl_add_column (''fan'', ''name''),
      Idl_omit_alert (''fan'', ''name''),
      Idl_add_column (''fan'', ''speed''),
      Idl_omit_alert (''fan'', ''speed''),
      Idl_add_column (''fan'', ''direction''),
      Idl_omit_alert (''fan'', ''direction''),
      Idl_add_column (''fan'', ''rpm''),
      Idl_omit_alert (''fan'', ''rpm''),
      Idl_add_column (''fan'', ''status''),
      Idl_omit_alert (''fan'', ''status''),
      Idl_add_table ''temp_sensor'',
      Idl_add_column (''temp_sensor'', ''fan_state''),
      Idl_add_table ''subsystem'',
      Idl_add_column (''subsystem'', ''other_config''),
      Idl_add_column (''subsystem'', ''name''),
      Idl_add_column (''subsystem'', ''hw_desc_dir''),
      Idl_add_column (''subsystem'', ''temp_sensors''),
      Idl_add_column (''subsystem'', ''fans''),
      Idl_omit_alert (''subsystem'', ''fans'')]"

fun monitored :: "idl_call list \<Rightarrow> column set" where
  "monitored [] = {}"
| "monitored (Idl_add_column c # calls) = insert c (monitored calls)"
| "monitored (_ # calls) = monitored calls"

fun silent :: "idl_call list \<Rightarrow> column set" where
  "silent [] = {}"
| "silent (Idl_omit_alert c # calls) = insert c (silent calls)"
| "silent (_ # calls) = silent calls"

text \<open>
  The discipline of the calls: a column is added after its table, and its alert omitted after
  it was added.
\<close>

fun calls_in_order :: "string set \<Rightarrow> column set \<Rightarrow> idl_call list \<Rightarrow> bool" where
  "calls_in_order tables columns [] = True"
| "calls_in_order tables columns (call # calls) =
     (case call of
        Idl_add_table t \<Rightarrow> calls_in_order (insert t tables) columns calls
      | Idl_add_column c \<Rightarrow> fst c \<in> tables \<and> calls_in_order tables (insert c columns) calls
      | Idl_omit_alert c \<Rightarrow> c \<in> columns \<and> calls_in_order tables columns calls
      | _ \<Rightarrow> calls_in_order tables columns calls)"

section \<open>Columns that differ\<close>

text \<open>
  The columns of the model's replica, each with the test that two replicas agree on it. A
  subsystem row holds the \<open>fan_state\<close> of its sensors, so the last two share their test.
\<close>

definition column_agrees :: "ovsdb \<Rightarrow> ovsdb \<Rightarrow> (column \<times> bool) list" where
  "column_agrees db db' =
     (let fans = (db_fans db, db_fans db');
          subs = (db_subsystems db, db_subsystems db');
          daemons = (db_daemons db, db_daemons db') in
     [((''fan'', ''name''), map row_name (fst fans) = map row_name (snd fans)),
      ((''fan'', ''status''), map row_status (fst fans) = map row_status (snd fans)),
      ((''fan'', ''direction''), map row_direction (fst fans) = map row_direction (snd fans)),
      ((''fan'', ''speed''), map row_speed (fst fans) = map row_speed (snd fans)),
      ((''fan'', ''rpm''), map row_rpm (fst fans) = map row_rpm (snd fans)),
      ((''daemon'', ''name''), map daemon_name (fst daemons) = map daemon_name (snd daemons)),
      ((''daemon'', ''cur_hw''), map daemon_cur_hw (fst daemons) = map daemon_cur_hw (snd daemons)),
      ((''subsystem'', ''name''), map cfg_name (fst subs) = map cfg_name (snd subs)),
      ((''subsystem'', ''hw_desc_dir''), map cfg_hw_desc_dir (fst subs) = map cfg_hw_desc_dir (snd subs)),
      ((''subsystem'', ''other_config''), map cfg_other_config (fst subs) = map cfg_other_config (snd subs)),
      ((''subsystem'', ''fans''), map cfg_fans (fst subs) = map cfg_fans (snd subs)),
      ((''subsystem'', ''temp_sensors''), map cfg_temp_sensors (fst subs) = map cfg_temp_sensors (snd subs)),
      ((''temp_sensor'', ''fan_state''), map cfg_temp_sensors (fst subs) = map cfg_temp_sensors (snd subs))])"

definition changed_columns :: "ovsdb \<Rightarrow> ovsdb \<Rightarrow> column set" where
  "changed_columns db db' = fst ` set (filter (\<lambda>(c, same). \<not> same) (column_agrees db db'))"

section \<open>What the daemon leaves alone\<close>

text \<open>Two replicas that agree outside the columns the daemon writes.\<close>

definition same_alerting :: "ovsdb \<Rightarrow> ovsdb \<Rightarrow> bool" where
  "same_alerting db db' \<longleftrightarrow>
     map (\<lambda>cfg. cfg\<lparr>cfg_fans := []\<rparr>) (db_subsystems db') =
       map (\<lambda>cfg. cfg\<lparr>cfg_fans := []\<rparr>) (db_subsystems db) \<and>
     map daemon_name (db_daemons db') = map daemon_name (db_daemons db) \<and>
     db_seqno db' = db_seqno db"

lemma same_alerting_refl [simp]: "same_alerting db db"
  by (simp add: same_alerting_def)

lemma same_alerting_trans:
  "same_alerting db db' \<Longrightarrow> same_alerting db' db'' \<Longrightarrow> same_alerting db db''"
  by (simp add: same_alerting_def)

lemma same_alerting_columns:
  assumes "same_alerting db db'"
  shows "map cfg_name (db_subsystems db') = map cfg_name (db_subsystems db)"
    and "map cfg_hw_desc_dir (db_subsystems db') = map cfg_hw_desc_dir (db_subsystems db)"
    and "map cfg_other_config (db_subsystems db') = map cfg_other_config (db_subsystems db)"
    and "map cfg_temp_sensors (db_subsystems db') = map cfg_temp_sensors (db_subsystems db)"
proof -
  have project: "map f (db_subsystems db') = map f (db_subsystems db)"
    if "\<And>cfg. f (cfg\<lparr>cfg_fans := []\<rparr>) = f cfg" for f :: "ovsrec_subsystem \<Rightarrow> 'a"
  proof -
    have "map f (map (\<lambda>cfg. cfg\<lparr>cfg_fans := []\<rparr>) (db_subsystems db')) =
        map f (map (\<lambda>cfg. cfg\<lparr>cfg_fans := []\<rparr>) (db_subsystems db))"
      using assms by (simp only: same_alerting_def)
    then show ?thesis by (simp add: comp_def that)
  qed
  show "map cfg_name (db_subsystems db') = map cfg_name (db_subsystems db)"
    "map cfg_hw_desc_dir (db_subsystems db') = map cfg_hw_desc_dir (db_subsystems db)"
    "map cfg_other_config (db_subsystems db') = map cfg_other_config (db_subsystems db)"
    "map cfg_temp_sensors (db_subsystems db') = map cfg_temp_sensors (db_subsystems db)"
    by (simp_all add: project)
qed

lemma silent_fand: "silent fand_idl_calls =
    {(''daemon'', ''cur_hw''), (''fan'', ''name''), (''fan'', ''speed''), (''fan'', ''direction''),
     (''fan'', ''rpm''), (''fan'', ''status''), (''subsystem'', ''fans'')}"
  by (simp add: fand_idl_calls_def)

lemma same_alerting_silent:
  assumes "same_alerting db db'"
  shows "changed_columns db db' \<subseteq> silent fand_idl_calls"
proof -
  have "map daemon_name (db_daemons db') = map daemon_name (db_daemons db)"
    using assms by (simp add: same_alerting_def)
  with same_alerting_columns [OF assms] show ?thesis
    unfolding silent_fand by (auto simp: changed_columns_def column_agrees_def)
qed

section \<open>Every operation leaves it alone\<close>

text \<open>The operations that do not touch the replica at all.\<close>

named_theorems keeps_db \<open>results that leave the replica alone\<close>

lemma store_log_db [simp]:
  "idl_db (store_sub a x s) = idl_db s" "idl_db (store_fan b y s) = idl_db s"
  "idl_db (log_event e s) = idl_db s"
  by (simp_all add: store_sub_def store_fan_def log_event_def)

lemma fand_set_fanspeed_db [keeps_db]:
  "fand_set_fanspeed E a s = Inr t \<Longrightarrow> idl_db t = idl_db s"
  by (auto simp: fand_set_fanspeed_def res_bind_eq_Inr Let_def split_beta split: option.splits)

lemma fand_set_fanleds_db [keeps_db]:
  "fand_set_fanleds E a s = Inr t \<Longrightarrow> idl_db t = idl_db s"
  by (auto simp: fand_set_fanleds_def res_bind_eq_Inr Let_def split: option.splits prod.splits)

lemma fand_read_fan_status_db [keeps_db]:
  "fand_read_fan_status E fa s = Inr t \<Longrightarrow> idl_db t = idl_db s"
  by (auto simp: fand_read_fan_status_def res_bind_eq_Inr Let_def split_beta split: if_splits)

text \<open>A loop leaves the replica alone if its body does.\<close>

lemma for_each_db:
  assumes "for_each body xs s = Inr t"
    and "\<And>x s t. body x s = Inr t \<Longrightarrow> idl_db t = idl_db s"
  shows "idl_db t = idl_db s"
  by (rule for_each_invariant [OF assms(1), where P = "\<lambda>u. idl_db u = idl_db s"])
    (simp_all add: assms(2))

lemma read_all_fans_db [keeps_db]: "read_all_fans E s = Inr t \<Longrightarrow> idl_db t = idl_db s"
proof -
  have one: "read_registered_fan E a node s = Inr t \<Longrightarrow> idl_db t = idl_db s" for a node s t
    by (auto simp: read_registered_fan_def res_bind_eq_Inr dest: keeps_db)
  have all: "read_subsystem_fans E node s = Inr t \<Longrightarrow> idl_db t = idl_db s" for node s t
    by (auto simp: read_subsystem_fans_def res_bind_eq_Inr dest!: for_each_db [OF _ one])
  show "read_all_fans E s = Inr t \<Longrightarrow> idl_db t = idl_db s"
    unfolding read_all_fans_def by (erule for_each_db) (rule all)
qed

lemma fand_unmark_subsystems_db [keeps_db]:
  "fand_unmark_subsystems E s = Inr t \<Longrightarrow> idl_db t = idl_db s"
  unfolding fand_unmark_subsystems_def
  by (erule for_each_db) (auto simp: unmark_subsystem_def res_bind_eq_Inr)

lemma fand_remove_unmarked_subsystems_db [keeps_db]:
  "fand_remove_unmarked_subsystems E s = Inr t \<Longrightarrow> idl_db t = idl_db s"
proof -
  have one: "remove_fan E a node s = Inr t \<Longrightarrow> idl_db t = idl_db s" for a node s t
    by (auto simp: remove_fan_def res_bind_eq_Inr)
  have all: "sweep_subsystem E node s = Inr t \<Longrightarrow> idl_db t = idl_db s" for node s t
    by (auto simp: sweep_subsystem_def res_bind_eq_Inr split: if_splits dest!: for_each_db [OF _ one])
  show "fand_remove_unmarked_subsystems E s = Inr t \<Longrightarrow> idl_db t = idl_db s"
    unfolding fand_remove_unmarked_subsystems_def by (erule for_each_db) (rule all)
qed

section \<open>The transaction of \<open>add_subsystem\<close>\<close>

text \<open>
  A predicate on replicas that making a fan's row and setting a subsystem's fans keep. The
  whole of \<open>fand_reconfigure\<close> keeps it, whether or not its transactions are accepted.
\<close>

lemma new_fan_db [keeps_db]: "new_fan E a name fan s = Inr t \<Longrightarrow> idl_db t = idl_db s"
  by (auto simp: new_fan_def Let_def res_bind_eq_Inr)

lemma configure_subsystem_db [keeps_db]:
  "configure_subsystem E cfg a s = Inr t \<Longrightarrow> idl_db t = idl_db s"
  by (auto simp: configure_subsystem_def mark_subsystem_def res_bind_eq_Inr dest!: keeps_db)

locale replica_invariant =
  fixes holds :: "ovsdb \<Rightarrow> bool"
  assumes new_row: "holds view \<Longrightarrow> new_fan_row name view = (u, view') \<Longrightarrow> holds view'"
    and set_fans: "holds view \<Longrightarrow> holds (ovsrec_subsystem_set_fans name us view)"
begin

lemma commit: "holds (idl_db s) \<Longrightarrow> holds view \<Longrightarrow> holds (idl_db (commit_block E view s))"
  by (simp add: commit_block_def)

lemma add_fan_keeps:
  assumes "add_fan E sname a n fan (view, us, s) = Inr (view', us', t)" and "holds view"
  shows "holds view' \<and> idl_db t = idl_db s"
  using assms new_row [OF assms(2), of "full_fan_name sname (yf_name fan)"]
  by (cases "new_fan_row (full_fan_name sname (yf_name fan)) view")
    (auto simp: add_fan_def Let_def res_bind_eq_Inr split: if_splits dest!: keeps_db)

lemma add_all_fans_keeps:
  assumes "add_all_fans E sname a m n s = Inr t" and "holds (idl_db s)"
  shows "holds (idl_db t)"
proof -
  let ?y = "yaml_handle (log_event (FAN_COUNT n sname) s)"
  let ?P = "\<lambda>(view, us, u). holds view \<and> idl_db u = idl_db s"
  let ?body = "\<lambda>idx st. res_bind (deref (yaml_get_fan_fru E ?y sname idx))
      (\<lambda>fru. for_each (add_fan E sname a n) (fru_fans fru) st)"
  obtain view us u where loop: "for_each ?body [0..<m] (idl_db s, [], log_event (FAN_COUNT n sname) s) =
      Inr (view, us, u)"
    and t: "t = commit_block E (ovsrec_subsystem_set_fans sname us view) u"
    using assms(1) by (auto simp: add_all_fans_def Let_def res_bind_eq_Inr)
  have step: "?P st'" if "?P st" "add_fan E sname a n fan st = Inr st'" for fan st st'
    using that add_fan_keeps [of E sname a n fan] by (cases st; cases st') fastforce
  have body: "?P st'" if "?P st" "?body idx st = Inr st'" for idx st st'
  proof -
    from that(2) obtain fru :: yaml_fan_fru where "for_each (add_fan E sname a n) (fru_fans fru) st = Inr st'"
      by (auto simp: res_bind_eq_Inr)
    then show ?thesis by (rule for_each_invariant [where P = ?P]) (use that(1) step in blast)+
  qed
  have "?P (view, us, u)"
    by (rule for_each_invariant [OF loop, where P = ?P]) (simp add: assms(2), rule body)
  then have "holds (idl_db u)" "holds view" using assms(2) by simp_all
  then show ?thesis unfolding t by (intro commit set_fans)
qed

lemma get_subsystem_keeps:
  assumes "get_subsystem E cfg s = Inr (p, t)" and "holds (idl_db s)"
  shows "holds (idl_db t)"
proof -
  have populate: "holds (idl_db t)"
    if "populate_subsystem E name a info s = Inr (p, t)" "holds (idl_db s)" for name a info s
    using that
    by (auto simp: populate_subsystem_def Let_def res_bind_eq_Inr split: if_splits
        dest!: add_all_fans_keeps keeps_db)
  have "holds (idl_db t)" if "add_subsystem E cfg s = Inr (p, t)"
    using that assms(2)
    by (auto simp: add_subsystem_def Let_def split: prod.splits option.splits dest!: populate)
  with assms show ?thesis
    by (auto simp: get_subsystem_def res_bind_eq_Inr split: option.splits)
qed

lemma reconfigure_subsystem_keeps:
  assumes "reconfigure_subsystem E cfg s = Inr t" and "holds (idl_db s)"
  shows "holds (idl_db t)"
  using assms get_subsystem_keeps [of E cfg s] configure_subsystem_db
  by (fastforce simp: reconfigure_subsystem_def res_bind_eq_Inr split: option.splits)

lemma fand_reconfigure_keeps:
  assumes "fand_reconfigure E s = Inr t" and "holds (idl_db s)"
  shows "holds (idl_db t)"
proof (cases "db_seqno (idl_db s) = idl_seqno s")
  case True
  with assms show ?thesis by (simp add: fand_reconfigure_def)
next
  case False
  with assms(1) obtain u v where u: "idl_db u = idl_db s"
    and loop: "for_each (reconfigure_subsystem E) (db_subsystems (idl_db u)) u = Inr v"
    and t: "idl_db t = idl_db v"
    by (auto simp: fand_reconfigure_def Let_def res_bind_eq_Inr dest!: keeps_db)
  have "holds (idl_db v)"
    by (rule for_each_invariant [OF loop, where P = "\<lambda>x. holds (idl_db x)"])
      (use assms(2) u reconfigure_subsystem_keeps in auto)
  with t show ?thesis by simp
qed

end

lemma new_fan_row_alerting: "new_fan_row name view = (u, view') \<Longrightarrow> same_alerting view view'"
  by (auto simp: new_fan_row_def ovsrec_fan_insert_def update_fan_row_def same_alerting_def
      Let_def split: option.splits)

lemma set_fans_alerting: "same_alerting db (ovsrec_subsystem_set_fans name us db)"
  by (auto simp: same_alerting_def ovsrec_subsystem_set_fans_def)

interpretation alerting: replica_invariant "same_alerting db" for db
  by unfold_locales (blast intro: same_alerting_trans new_fan_row_alerting set_fans_alerting)+

section \<open>Publications and iterations\<close>

lemma set_cur_hw_names: "map daemon_name (fst (set_cur_hw ds)) = map daemon_name ds"
  by (induction ds) (simp_all add: Let_def split_beta)

lemma publish_status_alerting:
  assumes "publish_status E s = Inr t"
  shows "same_alerting (idl_db s) (idl_db t)"
proof -
  obtain rows ds where "idl_db t = idl_db s \<or> idl_db t = (idl_db s)\<lparr>db_fans := rows, db_daemons := ds\<rparr>"
    and "map daemon_name ds = map daemon_name (db_daemons (idl_db s))"
  proof -
    obtain rows change where loop:
        "for_each (publish_row E s) (db_fans (idl_db s)) ([], False) = Inr (rows, change)"
      using assms by (auto simp: publish_status_def Let_def res_bind_eq_Inr)
    define r where "r = (if cur_hw_set s then (db_daemons (idl_db s), False)
        else set_cur_hw (db_daemons (idl_db s)))"
    have "idl_db t = idl_db s \<or> idl_db t = (idl_db s)\<lparr>db_fans := rows, db_daemons := fst r\<rparr>"
      using assms
      by (auto simp: publish_status_def Let_def loop split_beta commit_block_def simp flip: r_def
          split: if_splits)
    moreover have "map daemon_name (fst r) = map daemon_name (db_daemons (idl_db s))"
      by (simp add: r_def set_cur_hw_names)
    ultimately show thesis by (rule that)
  qed
  then show ?thesis by (auto simp: same_alerting_def)
qed

lemma fand_run_alerting:
  assumes "fand_run E inp s = Inr t"
  shows "same_alerting (in_db inp) (idl_db t)"
proof (cases "in_lock_contended inp \<or> \<not> in_has_lock inp")
  case True
  with assms show ?thesis by (auto simp: fand_run_def Let_def split: if_splits)
next
  case False
  with assms obtain u v where "fand_reconfigure E (s\<lparr>idl_db := in_db inp\<rparr>) = Inr u"
    "idl_db v = idl_db u" "publish_status E v = Inr t"
    by (auto simp: fand_run_def fand_read_status_def Let_def res_bind_eq_Inr dest!: keeps_db)
  then have "same_alerting (in_db inp) (idl_db u)" "same_alerting (idl_db u) (idl_db t)"
    using alerting.fand_reconfigure_keeps [of E "s\<lparr>idl_db := in_db inp\<rparr>" u] publish_status_alerting [of E v t]
    by auto
  then show ?thesis by (rule same_alerting_trans)
qed

section \<open>Properties\<close>


end
