(* ===== verification/Typed_Rows.thy ===== *)
theory Typed_Rows
  imports Run Idl
begin

text \<open>
  The Fan table stays well typed: the columns that the daemon fills hold the names of statuses,
  speeds and directions and readings that fit an \<open>int\<close>, over whole runs.
\<close>

section \<open>Well-typed rows\<close>

definition row_typed :: "ovsrec_fan \<Rightarrow> bool" where
  "row_typed row \<longleftrightarrow> row_status row \<in> set fanstatus_string \<and>
     row_speed row \<in> set fanspeed_string \<and> row_direction row \<in> set fandirection_string \<and>
     (case row_rpm row of None \<Rightarrow> True | Some rpm \<Rightarrow> in_int_range (sint rpm))"

definition rows_typed :: "ovsdb \<Rightarrow> bool" where
  "rows_typed db \<longleftrightarrow> (\<forall>row \<in> set (db_fans db). row_typed row)"

text \<open>Extending an \<open>int\<close> to 64 bits keeps its value.\<close>

lemma sint_scast_rpm: "sint (scast (rpm :: c_int) :: s64) = sint rpm"
  by (simp add: sint_up_scast is_up)

lemma row_typed_matching:
  assumes "row_matches fan row" and "fan_direction fan \<in> set fandirection_string"
  shows "row_typed row"
  using assms
  by (simp add: row_matches_def row_typed_def status_codec.print_in_names
      speed_codec.print_in_names sint_scast_rpm)

section \<open>New rows\<close>


lemma rows_typed_new_row:
  assumes "rows_typed view" and "new_fan_row name view = (u, view')"
  shows "rows_typed view'"
proof -
  let ?f = "\<lambda>r. r\<lparr>row_name := name,
      row_status := fan_status_enum_to_string FAND_STATUS_UNINITIALIZED,
      row_direction := ''f2b'', row_speed := fan_speed_enum_to_string FAND_SPEED_NORMAL\<rparr>"
  have typed: "row_typed (?f r)" if "row_typed r \<or> row_rpm r = None" for r
    using that by (auto simp: row_typed_def status_codec.print_in_names speed_codec.print_in_names
        fandirection_string_def split: option.splits)
  show ?thesis
  proof (cases "lookup_fan view name")
    case (Some v)
    with assms typed show ?thesis
      by (auto simp: new_fan_row_def update_fan_row_def rows_typed_def)
  next
    case None
    have "row_typed (?f \<lparr>row_uuid = fresh_uuid view, row_name = [], row_status = [],
        row_direction = [], row_speed = [], row_rpm = None\<rparr>)" by (rule typed) simp
    with None assms typed show ?thesis
      by (auto simp: new_fan_row_def update_fan_row_def rows_typed_def ovsrec_fan_insert_def Let_def)
  qed
qed

interpretation typed: replica_invariant rows_typed
  by unfold_locales (rule rows_typed_new_row, assumption+,
    simp add: rows_typed_def ovsrec_subsystem_set_fans_def)

section \<open>Published rows\<close>

lemma fand_read_status_typed:
  assumes "platform E cat" and "daemon_ok E cat s"
    and rows: "row_names (idl_db s) \<subseteq> fst ` set (fan_data s)"
    and typed: "rows_typed (idl_db s)" and t: "fand_read_status E s = Inr t"
  shows "rows_typed (idl_db t)"
proof -
  obtain u where read: "fans_read (snd ` set (fan_data s)) s u"
    and pub: "publish_status E u = Inr t" and ok_u: "daemon_ok E cat u"
    by (rule fand_read_status_ok [OF assms(1,2) rows]) (use t in auto)
  note reg = daemon_ok_D(1) [OF ok_u]
  have data: "fan_data u = fan_data s" "idl_db u = idl_db s"
    using read same_registry_D(4) [of s u]
    by (simp_all add: same_daemon_def fans_read_def same_outside_def)
  have "row_typed row" if row: "row \<in> set (fresh_rows u)" for row
  proof -
    from row obtain r where r: "r \<in> set (db_fans (idl_db s))"
      "row = fst (refresh_row (fan_called u (row_name r)) r)"
      by (auto simp: fresh_rows_def data)
    with rows obtain fa where fa: "(row_name row, fa) \<in> set (fan_data s)"
      by (auto simp: row_names_def)
    then have "fa \<in> snd ` set (fan_data s)" by (rule rev_image_eqI) simp
    then obtain f where f: "fan_heap u fa = Some f" "fan_direction f \<in> set fandirection_string"
      using read unfolding fans_read_def by blast
    have "fan_called u (row_name row) = f"
      using fan_called_eq [OF reg _ f(1)] fa data by simp
    then have "row_matches f row" using r row_matches_refreshed by simp
    then show ?thesis using f(2) by (rule row_typed_matching)
  qed
  moreover have "db_fans (idl_db t) = db_fans (idl_db u) \<or> db_fans (idl_db t) = fresh_rows u"
    using pub
    by (auto simp: publish_status_eq [OF reg] Let_def split_beta commit_block_def split: if_splits)
  ultimately show ?thesis using typed by (auto simp: rows_typed_def data)
qed

lemma fand_run_typed:
  assumes plat: "platform E cat" and run: "running E cat tbl s"
    and db: "consistent cat tbl (in_db inp)" and typed: "rows_typed (in_db inp)"
    and t: "fand_run E inp s = Inr t"
  shows "rows_typed (idl_db t)"
proof (cases "in_lock_contended inp \<or> \<not> in_has_lock inp")
  case True
  with fand_run_idle [OF True, of E s] t typed show ?thesis by auto
next
  case False
  have lib: "yaml_library E cat" using plat by (simp add: platform_def)
  obtain u where u: "fand_reconfigure E (s\<lparr>idl_db := in_db inp\<rparr>) = Inr u" "running E cat tbl u"
    "row_names (idl_db u) \<subseteq> fst ` set (fan_data u)"
    by (rule reconfigure_run [OF lib run db]) blast
  have "rows_typed (idl_db u)" by (rule typed.fand_reconfigure_keeps [OF u(1)]) (simp add: typed)
  moreover have "fand_read_status E u = Inr t" using t False u(1) by (simp add: fand_run_def Let_def)
  moreover have "daemon_ok E cat u" using u(2) by (simp add: running_def settled_def)
  ultimately show ?thesis using fand_read_status_typed [OF plat _ u(3)] by blast
qed

section \<open>Properties\<close>

text \<open>C16: A well-typed Fan table. On a platform that keeps its contracts and with consistent
  inputs whose fan rows are well typed, the daemon's replica has well-typed fan rows after every
  run of the main loop: the status, speed and direction columns hold names of their enumerations
  and an rpm fits an \<open>int\<close>, whatever the registers answer and whatever was in fresh memory.\<close>

theorem main_loop_keeps_rows_typed:
  assumes "main_loop E w db ins (Inr d)" and "platform E cat" and "tbl (db_seqno db) = []"
    and "\<forall>(inp, cs) \<in> set ins. consistent cat tbl (in_db inp) \<and> rows_typed (in_db inp)"
    and "rows_typed db"
  shows "rows_typed (idl_db (proc d))"
proof (cases ins rule: rev_cases)
  case Nil
  with assms(1) have "d = main_start E w db"
    by (auto elim: main_loop.cases)
  with assms(5) show ?thesis by (simp add: main_start_def fand_init_def init_subsystems_def)
next
  case (snoc before last)
  obtain inp cs where last: "last = (inp, cs)" by (cases last)
  from assms(1) obtain d0 where d0: "main_loop E w db before (Inr d0)"
    "main_iteration E inp cs d0 = Inr d"
    unfolding snoc last main_loop_snoc by auto
  have "\<forall>(inp, cs) \<in> set before. consistent cat tbl (in_db inp)" using assms(4) snoc by auto
  then have run: "running E cat tbl (proc d0)"
    using main_loop_running [where tbl = tbl, OF d0(1) assms(2,3)] by blast
  have db: "consistent cat tbl (in_db inp)" "rows_typed (in_db inp)"
    using assms(4) by (simp_all add: snoc last)
  obtain e where "main_iteration E inp cs d0 = Inr e" "fand_run E inp (proc d0) = Inr (proc e)"
    by (rule main_iteration_ok [OF assms(2) run db(1), of cs])
  with d0(2) have "fand_run E inp (proc d0) = Inr (proc d)" by simp
  from fand_run_typed [OF assms(2) run db this] show ?thesis .
qed

end
