(* ===== verification/Abstraction.thy ===== *)
theory Abstraction
  imports Run
begin

text \<open>
  The daemon as a small abstract machine. Of the registry only what it says is kept: for the
  name of a managed subsystem its sensors' demand, the override, the speed in force and the
  names of its fans. An iteration either leaves this view alone or replaces it as a whole by
  what the subsystem table asks for. The model of the code refines this machine, over whole runs.
\<close>

section \<open>The abstract machine\<close>

record managed =
  m_sensors :: fanspeed
  m_override :: fanspeed
  m_speed :: fanspeed
  m_fans :: "string set"

type_synonym view = "string \<rightharpoonup> managed"

text \<open>What a row asks for.\<close>

definition asked :: "catalog \<Rightarrow> ovsrec_subsystem \<Rightarrow> managed" where
  "asked cat cfg =
     (let sensors = Max (insert FAND_SPEED_SLOW
            ((\<lambda>st. fan_speed_string_to_enum (Some st)) ` set (cfg_temp_sensors cfg)));
          override = fan_speed_string_to_enum (cfg_other_config cfg ''fan_speed_override'')
      in \<lparr>m_sensors = sensors, m_override = override,
          m_speed = (if sensors = FAND_SPEED_MAX \<or> override = FAND_SPEED_NONE then sensors else override),
          m_fans = set (catalog_names cat (cfg_name cfg))\<rparr>)"

text \<open>
  A row without a description is ignored, unless its subsystem is managed already.
\<close>

definition spec_reconfigure :: "catalog \<Rightarrow> ovsrec_subsystem list \<Rightarrow> view \<Rightarrow> view" where
  "spec_reconfigure cat cfgs v = (\<lambda>n.
     case find (\<lambda>cfg. cfg_name cfg = n) cfgs of
       None \<Rightarrow> None
     | Some cfg \<Rightarrow> if loadable cat cfg \<or> v n \<noteq> None then Some (asked cat cfg) else None)"

text \<open>The state is the sequence number of the table last taken over, and the view.\<close>

definition spec_iteration :: "catalog \<Rightarrow> idl_input \<Rightarrow> u32 \<times> view \<Rightarrow> u32 \<times> view" where
  "spec_iteration cat inp = (\<lambda>(n, v).
     if in_lock_contended inp \<or> \<not> in_has_lock inp \<or> db_seqno (in_db inp) = n then (n, v)
     else (db_seqno (in_db inp), spec_reconfigure cat (db_subsystems (in_db inp)) v))"

section \<open>The abstraction\<close>

definition managed_of :: "locl_subsystem \<Rightarrow> managed" where
  "managed_of sub = \<lparr>m_sensors = sub_fan_speed sub, m_override = sub_fan_speed_override sub,
     m_speed = sub_speed sub, m_fans = fst ` set (subsystem_fans sub)\<rparr>"

definition registry_view :: "('y, 'w) fand \<Rightarrow> view" where
  "registry_view s = (\<lambda>n.
     Option.bind (map_of (subsystem_data s) n) (\<lambda>a. map_option managed_of (subsystem_heap s a)))"

definition abstraction :: "('y, 'w) fand \<Rightarrow> u32 \<times> view" where
  "abstraction s = (idl_seqno s, registry_view s)"

lemma registry_view_cong:
  "subsystem_data t = subsystem_data s \<Longrightarrow> subsystem_heap t = subsystem_heap s \<Longrightarrow>
     registry_view t = registry_view s"
  by (simp add: registry_view_def)

lemma registry_view_Some:
  assumes "registry_ok s" and "(n, a) \<in> set (subsystem_data s)" and "subsystem_heap s a = Some sub"
  shows "registry_view s n = Some (managed_of sub)"
  using assms(2,3) registry_ok_D(1) [OF assms(1)] by (simp add: registry_view_def)

lemma registry_view_None:
  "n \<notin> fst ` set (subsystem_data s) \<Longrightarrow> registry_view s n = None"
  by (simp add: registry_view_def flip: map_of_eq_None_iff)

lemma registry_view_dom:
  assumes "registry_ok s"
  shows "registry_view s n \<noteq> None \<longleftrightarrow> n \<in> fst ` set (subsystem_data s)"
proof
  assume "n \<in> fst ` set (subsystem_data s)"
  then obtain a where a: "(n, a) \<in> set (subsystem_data s)" by auto
  obtain sub where "subsystem_heap s a = Some sub" using registered_subsystem [OF assms a] .
  from registry_view_Some [OF assms a this] show "registry_view s n \<noteq> None" by simp
next
  assume "registry_view s n \<noteq> None"
  with registry_view_None [of n s] show "n \<in> fst ` set (subsystem_data s)" by metis
qed

text \<open>A managed subsystem that holds its row's configuration is what the row asks for.\<close>

lemma managed_of_configured:
  assumes "configured cfg sub" and "entry_known E cat s sub info frus" and "sub_name sub = cfg_name cfg"
  shows "managed_of sub = asked cat cfg"
proof -
  have "highest_sensor (cfg_temp_sensors cfg) \<noteq> FAND_SPEED_NONE"
  proof -
    have "FAND_SPEED_SLOW \<le> highest_sensor (cfg_temp_sensors cfg)"
      unfolding highest_sensor_eq by (intro Max_ge) simp_all
    then show ?thesis by (auto simp: less_eq_fanspeed_def)
  qed
  with assms(1) entry_known_D(5) [OF assms(2)] assms(3) show ?thesis
    by (auto simp: managed_of_def asked_def configured_def effective_speed_eq smap_get_def
        Let_def simp flip: highest_sensor_eq)
qed

section \<open>Refinement\<close>

lemma fand_reconfigure_refines:
  assumes lib: "yaml_library E cat" and ok: "settled E cat s"
    and cfgs: "cfgs = db_subsystems (idl_db s)" "distinct (map cfg_name cfgs)"
      "\<forall>cfg \<in> set cfgs. unambiguous cat (cfg_name cfg)"
    and seqno: "db_seqno (idl_db s) \<noteq> idl_seqno s" and t: "fand_reconfigure E s = Inr t"
  shows "registry_view t = spec_reconfigure cat cfgs (registry_view s)"
proof
  fix n
  have settled: "settled E cat t" and r: "reflects cat (fst ` set (subsystem_data s)) cfgs t"
    using fand_reconfigure_ok [OF lib ok cfgs(2,3) [unfolded cfgs(1)] seqno] t cfgs(1) by auto
  have ok_t: "daemon_ok E cat t" and reg: "registry_ok t" and reg_s: "registry_ok s"
    using settled ok by (simp_all add: settled_def daemon_ok_def)
  note names = reflects_D(1) [OF r]
  show "registry_view t n = spec_reconfigure cat cfgs (registry_view s) n"
  proof (cases "find (\<lambda>cfg. cfg_name cfg = n) cfgs")
    case None
    then have "n \<notin> cfg_name ` set cfgs" by (auto simp: find_None_iff)
    then have "n \<notin> fst ` set (subsystem_data t)" using reflects_D(2) [OF r] by blast
    with None show ?thesis by (simp add: spec_reconfigure_def registry_view_None)
  next
    case (Some cfg)
    then have cfg: "cfg \<in> set cfgs" "cfg_name cfg = n" by (auto simp: find_Some_iff)
    have only: "c = cfg" if "c \<in> set cfgs" "cfg_name c = n" for c
      using that cfg cfgs(2) by (auto simp: distinct_map inj_on_def)
    have kept: "n \<in> fst ` set (subsystem_data t) \<longleftrightarrow> loadable cat cfg \<or> registry_view s n \<noteq> None"
    proof -
      have "n \<in> cfg_name ` {c \<in> set cfgs. P c} \<longleftrightarrow> P cfg" for P
        using cfg only by (metis (mono_tags, lifting) image_iff mem_Collect_eq)
      then show ?thesis unfolding names registry_view_dom [OF reg_s] kept_def cfg(2) [symmetric] .
    qed
    show ?thesis
    proof (cases "n \<in> fst ` set (subsystem_data t)")
      case False
      with kept Some show ?thesis by (simp add: spec_reconfigure_def registry_view_None)
    next
      case True
      then obtain a where a: "(n, a) \<in> set (subsystem_data t)" by auto
      obtain sub where sub: "subsystem_heap t a = Some sub" "sub_valid sub" "configured cfg sub"
        using reflects_D(4) [OF r a] cfg by blast
      have name: "sub_name sub = cfg_name cfg"
        using registered_subsystem [OF reg a] sub(1) cfg(2) by (metis option.inject)
      obtain info frus where "entry_known E cat t sub info frus"
        using subsystem_known_valid [OF daemon_ok_D(3) [OF ok_t a sub(1)] sub(2)] .
      from managed_of_configured [OF sub(3) this name] registry_view_Some [OF reg a sub(1)]
      have "registry_view t n = Some (asked cat cfg)" by simp
      with True kept Some show ?thesis by (simp add: spec_reconfigure_def)
    qed
  qed
qed

lemma fand_read_status_view:
  assumes "platform E cat" and "daemon_ok E cat s"
    and "row_names (idl_db s) \<subseteq> fst ` set (fan_data s)" and "fand_read_status E s = Inr t"
  shows "abstraction t = abstraction s"
proof -
  obtain t' where "fand_read_status E s = Inr t'" "same_daemon s t'"
    "subsystem_heap t' = subsystem_heap s" "idl_seqno t' = idl_seqno s"
    by (rule fand_read_status_ok [OF assms(1-3)]) (rule that)
  with assms(4) have "same_daemon s t" "subsystem_heap t = subsystem_heap s" "idl_seqno t = idl_seqno s"
    by simp_all
  moreover have "subsystem_data t = subsystem_data s"
    using same_registry_D(3) [of s t] \<open>same_daemon s t\<close> by (simp add: same_daemon_def)
  ultimately show ?thesis by (simp add: abstraction_def registry_view_cong [of t s])
qed

text \<open>One iteration, with the invariant of a run.\<close>

lemma fand_run_refines:
  assumes plat: "platform E cat" and run: "running E cat tbl s"
    and db: "consistent cat tbl (in_db inp)" and t: "fand_run E inp s = Inr t"
  shows "abstraction t = spec_iteration cat inp (abstraction s)"
proof (cases "in_lock_contended inp \<or> \<not> in_has_lock inp")
  case True
  with fand_run_idle [OF True, of E s] t show ?thesis
    by (auto simp: spec_iteration_def abstraction_def registry_view_def)
next
  case False
  let ?s = "s\<lparr>idl_db := in_db inp\<rparr>"
  have lib: "yaml_library E cat" using plat by (simp add: platform_def)
  have settled: "settled E cat ?s" using run by (simp add: running_def)
  obtain u where u: "fand_reconfigure E ?s = Inr u" "running E cat tbl u"
    "row_names (idl_db u) \<subseteq> fst ` set (fan_data u)" "idl_seqno u = db_seqno (in_db inp)"
    "if db_seqno (in_db inp) = idl_seqno s then u = ?s
      else reflects cat (fst ` set (subsystem_data s)) (db_subsystems (in_db inp)) u"
    by (rule reconfigure_run [OF lib run db])
  have "fand_read_status E u = Inr t" using t False u(1) by (simp add: fand_run_def Let_def)
  moreover have "daemon_ok E cat u" using u(2) by (simp add: running_def settled_def)
  ultimately have "abstraction t = abstraction u"
    using fand_read_status_view [OF plat _ u(3)] by blast
  also have "abstraction u = spec_iteration cat inp (abstraction s)"
  proof (cases "db_seqno (in_db inp) = idl_seqno s")
    case True
    with u(5) show ?thesis by (simp add: spec_iteration_def abstraction_def registry_view_def)
  next
    case new: False
    have "registry_view u = spec_reconfigure cat (db_subsystems (in_db inp)) (registry_view ?s)"
      by (rule fand_reconfigure_refines [OF lib settled _ _ _ _ u(1)])
        (use db new in \<open>simp_all add: consistent_def\<close>)
    moreover have "registry_view ?s = registry_view s" by (simp add: registry_view_def)
    ultimately show ?thesis
      using new False u(4) by (simp add: spec_iteration_def abstraction_def)
  qed
  finally show ?thesis .
qed

section \<open>Properties\<close>

text \<open>C2: The daemon is its abstract machine. On a platform that keeps its contracts and with
  consistent inputs, what the registry says after a run of the code's main loop is what the
  abstract machine says after the same inputs, started with no subsystem: the sequence number,
  the managed subsystems, for each the sensors' demand, the override, the speed in force and the
  names of its fans. Heaps, hash tables, their traversal orders, marking and sweeping, the
  outcome of register accesses and the verdicts of the server leave no trace in it.\<close>

theorem main_loop_refines_abstract_machine:
  assumes "main_loop E w db ins (Inr d)" and plat: "platform E cat" and tbl: "tbl (db_seqno db) = []"
    and "\<forall>(inp, cs) \<in> set ins. consistent cat tbl (in_db inp)"
  shows "abstraction (proc d) = fold (spec_iteration cat) (map fst ins) (db_seqno db, Map.empty)"
  using assms(1,4)
proof (induction ins "Inr d :: ('a, 'b) daemon res" arbitrary: d rule: main_loop.induct)
  case start
  then show ?case
    by (simp add: main_start_def fand_init_def init_subsystems_def abstraction_def registry_view_def)
next
  case (iterate ins d0 inp cs)
  then have old: "\<forall>(inp, cs) \<in> set ins. consistent cat tbl (in_db inp)"
    and db: "consistent cat tbl (in_db inp)" by auto
  have run: "running E cat tbl (proc d0)"
    using main_loop_running [where tbl = tbl, OF iterate.hyps(1) plat tbl old] by blast
  have "fand_run E inp (proc d0) = Inr (proc d)"
    using main_iteration_ok [OF plat run db, of cs] iterate.hyps(4) by (metis sum.inject(2))
  from fand_run_refines [OF plat run db this] iterate.hyps(2) [OF old] show ?case by simp
qed

end
