(* ===== verification/Cli.thy ===== *)
theory Cli
  imports Reconfigure
begin

text \<open>
  The command-line interface: \<open>src/cli/fan_vty.c\<close> and \<open>src/cli/vtysh_ovsdb_fan_context.c\<close>.
  It runs in another process (\<open>vtysh\<close>) and meets the daemon in the database: the override is
  written to the first subsystem row, the fan rows are printed.

  The vtysh library is outside the repository. Its functions are parameters
  (\<open>cli_services\<close>): whether a transaction can be started, the status a finished
  transaction gets, the line terminator, the key under which the override is kept, and the
  registration of the callback.
\<close>

section \<open>The shell's services and state\<close>

datatype txn_status = TXN_SUCCESS | TXN_UNCHANGED | TXN_OTHER nat

datatype cmd_result = CMD_SUCCESS | CMD_OVSDB_FAILURE

datatype vtysh_ret_val = E_vtysh_ok | E_vtysh_error | E_vtysh_other nat

text \<open>
  \<open>rpm_datum row\<close> tells whether \<open>ovsrec_fan_get_rpm\<close> answers a datum, \<open>no_key\<close> is what
  reading the first key of a datum without keys comes to.
\<close>

record cli_services =
  cli_do_config_start :: "ovsdb \<Rightarrow> bool"
  cli_do_config_finish :: "ovsdb \<Rightarrow> ovsdb \<Rightarrow> txn_status"
  FAN_SPEED_OVERRIDE_STR :: string
  VTY_NEWLINE :: string
  rpm_datum :: "ovsrec_fan \<Rightarrow> bool"
  no_key :: "s64 res"
  install_show_run_config_subcontext :: vtysh_ret_val

text \<open>
  The replica of the shell, the number of transactions that were started and neither
  aborted nor finished (book-keeping of the model, to state that none is left open), and the
  output to the terminal. The shell sees a change only once its transaction was accepted.
\<close>

record cli =
  cli_db :: ovsdb
  cli_open_txns :: nat
  cli_out :: string

section \<open>Setting the fan speed\<close>

definition ovsrec_subsystem_first :: "ovsdb \<Rightarrow> ovsrec_subsystem option" where
  "ovsrec_subsystem_first db = (case db_subsystems db of [] \<Rightarrow> None | row # _ \<Rightarrow> Some row)"

definition set_first_other_config :: "smap \<Rightarrow> ovsdb \<Rightarrow> ovsdb" where
  "set_first_other_config m db = db\<lparr>db_subsystems :=
     (case db_subsystems db of [] \<Rightarrow> [] | row # rows \<Rightarrow> row\<lparr>cfg_other_config := m\<rparr> # rows)\<rparr>"

definition cli_do_config_abort :: "bool \<Rightarrow> cli \<Rightarrow> cli" where
  "cli_do_config_abort txn s = (if txn then s\<lparr>cli_open_txns := cli_open_txns s - 1\<rparr> else s)"

definition vtysh_ovsdb_fan_speed_set ::
  "cli_services \<Rightarrow> string option \<Rightarrow> bool \<Rightarrow> cli \<Rightarrow> cmd_result \<times> cli" where
  "vtysh_ovsdb_fan_speed_set V speed to_set s =
     (let status_txn = cli_do_config_start V (cli_db s);
          s = (if status_txn then s\<lparr>cli_open_txns := Suc (cli_open_txns s)\<rparr> else s)
      in if \<not> status_txn then (CMD_OVSDB_FAILURE, cli_do_config_abort status_txn s)
         else case ovsrec_subsystem_first (cli_db s) of
           None \<Rightarrow> (CMD_OVSDB_FAILURE, cli_do_config_abort status_txn s)
         | Some row \<Rightarrow>
             let other_config = cfg_other_config row;
                 other_config =
                   (case (to_set, speed) of
                      (True, Some v) \<Rightarrow> smap_replace other_config (FAN_SPEED_OVERRIDE_STR V) v
                    | _ \<Rightarrow> smap_remove other_config (FAN_SPEED_OVERRIDE_STR V));
                 view = set_first_other_config other_config (cli_db s);
                 status = cli_do_config_finish V (cli_db s) view;
                 s = s\<lparr>cli_open_txns := cli_open_txns s - 1,
                       cli_db := (if status = TXN_SUCCESS then view else cli_db s)\<rparr>
             in if status = TXN_SUCCESS \<or> status = TXN_UNCHANGED then (CMD_SUCCESS, s)
                else (CMD_OVSDB_FAILURE, s))"

text \<open>
  The two commands. The words of the first one's grammar are the values its argument can
  take.
\<close>

definition fan_speed_words :: "string list" where
  "fan_speed_words = [''normal'', ''slow'', ''medium'', ''fast'', ''max'']"

definition vtysh_fan_speed :: "cli_services \<Rightarrow> string \<Rightarrow> cli \<Rightarrow> cmd_result \<times> cli" where
  "vtysh_fan_speed V arg s = vtysh_ovsdb_fan_speed_set V (Some arg) True s"

definition vtysh_no_fan_speed :: "cli_services \<Rightarrow> cli \<Rightarrow> cmd_result \<times> cli" where
  "vtysh_no_fan_speed V s = vtysh_ovsdb_fan_speed_set V None False s"

text \<open>What the grammar of the first command makes of a line: its argument.\<close>

definition fan_speed_argument :: "string \<Rightarrow> string option" where
  "fan_speed_argument line = find (\<lambda>word. line = ''fan-speed '' @ word) fan_speed_words"

section \<open>Showing the fans\<close>

text \<open>\<open>%-ns\<close>: at least \<open>n\<close> characters, filled with blanks on the right.\<close>

definition pad_right :: "nat \<Rightarrow> string \<Rightarrow> string" where
  "pad_right n str = str @ replicate (n - length str) (CHR '' '')"

definition vty_out :: "string \<Rightarrow> cli \<Rightarrow> cli" where
  "vty_out str s = s\<lparr>cli_out := cli_out s @ str\<rparr>"

definition show_direction :: "string \<Rightarrow> string" where
  "show_direction direction =
     (if take 3 direction = ''f2b'' then ''front-to-back'' else ''back-to-front'')"

definition fan_line :: "cli_services \<Rightarrow> ovsrec_fan \<Rightarrow> s64 \<Rightarrow> string" where
  "fan_line V row rpm =
     pad_right 13 (row_name row) @ pad_right 7 (row_speed row) @
     pad_right 15 (show_direction (row_direction row)) @ pad_right 14 (row_status row) @
     pad_right 8 (show_int (sint rpm)) @ VTY_NEWLINE V"

definition show_rule :: string where
  "show_rule = replicate 54 (CHR ''-'')"

text \<open>
  Lines 147 to 163, one row. The variable \<open>rpm\<close> lives outside the loop.
\<close>

definition show_fan_row ::
  "cli_services \<Rightarrow> ovsrec_fan \<Rightarrow> s64 \<times> cli \<Rightarrow> (s64 \<times> cli) res" where
  "show_fan_row V row = (\<lambda>(rpm, s).
     res_bind (if \<not> rpm_datum V row then Inr rpm
               else case row_rpm row of None \<Rightarrow> no_key V | Some v \<Rightarrow> Inr v) (\<lambda>rpm.
       Inr (rpm, vty_out (fan_line V row rpm) s)))"

definition show_title :: string where
  "show_title = ''Fan information''"

definition show_heading :: string where
  "show_heading = pad_right 13 ''Name'' @ pad_right 7 ''Speed'' @ pad_right 15 ''Direction'' @
     pad_right 14 ''Status'' @ pad_right 8 ''RPM''"

definition show_override :: "string option \<Rightarrow> string" where
  "show_override override =
     (case override of
        Some v \<Rightarrow> ''Fan speed override is set to : '' @ v
      | None \<Rightarrow> ''Fan speed override is not configured '')"

definition vtysh_ovsdb_fan_show :: "cli_services \<Rightarrow> cli \<Rightarrow> cli res" where
  "vtysh_ovsdb_fan_show V s =
     (case ovsrec_subsystem_first (cli_db s) of
        None \<Rightarrow> Inr s
      | Some subsysrow \<Rightarrow>
          let override = smap_get (cfg_other_config subsysrow) ''fan_speed_override'' in
          res_bind (for_each (show_fan_row V) (db_fans (cli_db s)) (0, s)) (\<lambda>(rpm, s).
            let s = vty_out (show_rule @ VTY_NEWLINE V) s;
                s = vty_out (show_override override @ VTY_NEWLINE V) s
            in Inr (vty_out (show_rule @ VTY_NEWLINE V) s)))"

definition vtysh_show_system_fan :: "cli_services \<Rightarrow> cli \<Rightarrow> (cmd_result \<times> cli) res" where
  "vtysh_show_system_fan V s =
     (let s = vty_out (show_title @ VTY_NEWLINE V) s;
          s = vty_out (show_rule @ VTY_NEWLINE V) s;
          s = vty_out (show_heading @ VTY_NEWLINE V) s;
          s = vty_out (show_rule @ VTY_NEWLINE V) s
      in res_bind (vtysh_ovsdb_fan_show V s) (\<lambda>s. Inr (CMD_SUCCESS, s)))"

section \<open>Registration\<close>

datatype cli_node = VIEW_NODE | ENABLE_NODE | CONFIG_NODE

datatype cli_element = Vtysh_show_system_fan_cmd | Vtysh_fan_speed_cmd | Vtysh_no_fan_speed_cmd

text \<open>The elements installed so far; a failed registration of the callback asserts.\<close>

definition cli_post_init ::
  "cli_services \<Rightarrow> (cli_node \<times> cli_element) list \<Rightarrow> (cli_node \<times> cli_element) list res" where
  "cli_post_init V es =
     (let es = es @ [(VIEW_NODE, Vtysh_show_system_fan_cmd)];
          es = es @ [(ENABLE_NODE, Vtysh_show_system_fan_cmd)];
          es = es @ [(CONFIG_NODE, Vtysh_fan_speed_cmd)];
          es = es @ [(CONFIG_NODE, Vtysh_no_fan_speed_cmd)]
      in if install_show_run_config_subcontext V \<noteq> E_vtysh_ok then Inl AssertFailure
         else Inr es)"

section \<open>The running configuration\<close>

text \<open>
  The message is the list of lines printed to it; NULL for the map is \<open>None\<close>.
\<close>

definition vtysh_ovsdb_subsystemtable_parse_othercfg ::
  "cli_services \<Rightarrow> smap option \<Rightarrow> string list \<Rightarrow> vtysh_ret_val \<times> string list" where
  "vtysh_ovsdb_subsystemtable_parse_othercfg V subsystemrow_config msg =
     (case subsystemrow_config of
        None \<Rightarrow> (E_vtysh_error, msg)
      | Some m \<Rightarrow>
          (E_vtysh_ok,
           case smap_get m (FAN_SPEED_OVERRIDE_STR V) of
             None \<Rightarrow> msg
           | Some data \<Rightarrow> if data \<noteq> ''normal'' then msg @ [''fan-speed '' @ data] else msg))"

definition vtysh_config_context_fan_clientcallback ::
  "cli_services \<Rightarrow> ovsdb \<Rightarrow> string list \<Rightarrow> vtysh_ret_val \<times> string list" where
  "vtysh_config_context_fan_clientcallback V db msg =
     (case ovsrec_subsystem_first db of
        None \<Rightarrow> (E_vtysh_ok, msg)
      | Some subsysrow \<Rightarrow>
          (E_vtysh_ok, snd (vtysh_ovsdb_subsystemtable_parse_othercfg V
             (Some (cfg_other_config subsysrow)) msg)))"

section \<open>Lemmas\<close>

lemma first_set_other_config [simp]:
  "ovsrec_subsystem_first (set_first_other_config m db) =
     map_option (\<lambda>row. row\<lparr>cfg_other_config := m\<rparr>) (ovsrec_subsystem_first db)"
  by (simp add: ovsrec_subsystem_first_def set_first_other_config_def split: list.splits)

text \<open>The map a command asks for.\<close>

definition requested :: "cli_services \<Rightarrow> string option \<Rightarrow> bool \<Rightarrow> smap \<Rightarrow> smap" where
  "requested V speed to_set m =
     (if to_set \<and> speed \<noteq> None then smap_replace m (FAN_SPEED_OVERRIDE_STR V) (the speed)
      else smap_remove m (FAN_SPEED_OVERRIDE_STR V))"

text \<open>The four outcomes of the setter.\<close>

lemma fan_speed_set_eq:
  "vtysh_ovsdb_fan_speed_set V speed to_set s =
     (if \<not> cli_do_config_start V (cli_db s) then (CMD_OVSDB_FAILURE, s)
      else case ovsrec_subsystem_first (cli_db s) of
        None \<Rightarrow> (CMD_OVSDB_FAILURE, s)
      | Some row \<Rightarrow>
          let view = set_first_other_config (requested V speed to_set (cfg_other_config row)) (cli_db s);
              status = cli_do_config_finish V (cli_db s) view
          in (if status = TXN_SUCCESS \<or> status = TXN_UNCHANGED then CMD_SUCCESS else CMD_OVSDB_FAILURE,
              s\<lparr>cli_db := (if status = TXN_SUCCESS then view else cli_db s)\<rparr>))"
  by (cases s) (auto simp: vtysh_ovsdb_fan_speed_set_def cli_do_config_abort_def requested_def Let_def
      split: option.splits bool.splits)

text \<open>
  What the code relies on: a transaction is reported as unchanged only if it holds no change.
\<close>

definition honest_unchanged :: "cli_services \<Rightarrow> bool" where
  "honest_unchanged V \<longleftrightarrow>
     (\<forall>db view. cli_do_config_finish V db view = TXN_UNCHANGED \<longrightarrow> view = db)"

lemma fan_speed_set_success:
  assumes "vtysh_ovsdb_fan_speed_set V speed to_set s = (CMD_SUCCESS, t)" and "honest_unchanged V"
  obtains row where "ovsrec_subsystem_first (cli_db s) = Some row"
    and "t = s\<lparr>cli_db := set_first_other_config
           (requested V speed to_set (cfg_other_config row)) (cli_db s)\<rparr>"
    and "ovsrec_subsystem_first (cli_db t) =
      Some (row\<lparr>cfg_other_config := requested V speed to_set (cfg_other_config row)\<rparr>)"
proof -
  from assms(1) obtain row where row: "ovsrec_subsystem_first (cli_db s) = Some row"
    by (auto simp: fan_speed_set_eq split: if_splits option.splits)
  let ?view = "set_first_other_config (requested V speed to_set (cfg_other_config row)) (cli_db s)"
  let ?status = "cli_do_config_finish V (cli_db s) ?view"
  from assms(1) row have "?status = TXN_SUCCESS \<or> ?status = TXN_UNCHANGED"
    and t: "t = s\<lparr>cli_db := (if ?status = TXN_SUCCESS then ?view else cli_db s)\<rparr>"
    by (auto simp: fan_speed_set_eq Let_def split: if_splits)
  moreover have "?status = TXN_UNCHANGED \<Longrightarrow> ?view = cli_db s"
    using assms(2) unfolding honest_unchanged_def by blast
  ultimately have "t = s\<lparr>cli_db := ?view\<rparr>" by auto
  with that row show thesis by simp
qed

text \<open>A word of the grammar is a speed of its own.\<close>

lemma fan_speed_word:
  assumes "word \<in> set fan_speed_words"
  shows "fan_speed_enum_to_string (fan_speed_string_to_enum (Some word)) = word"
    and "fan_speed_string_to_enum (Some word) \<noteq> FAND_SPEED_NONE"
proof -
  have "word \<in> set fanspeed_string"
    using assms by (auto simp: fan_speed_words_def fanspeed_string_def)
  then show "fan_speed_enum_to_string (fan_speed_string_to_enum (Some word)) = word"
    by (rule speed_codec.print_parse)
  show "fan_speed_string_to_enum (Some word) \<noteq> FAND_SPEED_NONE"
    using assms by (auto simp: fan_speed_words_def fan_speed_string_to_enum_def
        fanspeed_string_def fanspeed_of_index_def)
qed

section \<open>Decimal numbers read back\<close>

definition read_nat :: "string \<Rightarrow> nat" where
  "read_nat str = foldl (\<lambda>a c. 10 * a + (of_char c - 48)) 0 str"

definition read_int :: "string \<Rightarrow> int" where
  "read_int str =
     (case str of
        c # rest \<Rightarrow> if c = CHR ''-'' then - int (read_nat rest) else int (read_nat str)
      | [] \<Rightarrow> 0)"

definition digits :: "char set" where
  "digits = (\<lambda>i. char_of (48 + i)) ` {..<(10 :: nat)}"

lemma of_char_digit: "i < 10 \<Longrightarrow> of_char (char_of (48 + i) :: char) = 48 + (i :: nat)"
  by simp

lemma show_nat_digits: "set (show_nat n) \<subseteq> digits \<and> show_nat n \<noteq> []"
proof (induction n rule: show_nat.induct)
  case (1 n)
  show ?case
  proof (cases "n < 10")
    case True
    then have "char_of (48 + n) \<in> digits" unfolding digits_def by (intro imageI) simp
    then show ?thesis using True by (simp add: show_nat.simps [of n])
  next
    case False
    have "char_of (48 + n mod 10) \<in> digits" unfolding digits_def by (intro imageI) simp
    then show ?thesis using False 1 by (simp add: show_nat.simps [of n])
  qed
qed

lemma read_show_nat: "read_nat (show_nat n) = n"
proof (induction n rule: show_nat.induct)
  case (1 n)
  show ?case
  proof (cases "n < 10")
    case True
    then show ?thesis by (simp add: show_nat.simps [of n] read_nat_def)
  next
    case False
    have "read_nat (show_nat n) = 10 * read_nat (show_nat (n div 10)) + n mod 10"
      using False by (simp add: show_nat.simps [of n] read_nat_def)
    with 1 [OF False] show ?thesis by simp
  qed
qed

lemma signs_no_digit: "CHR ''-'' \<notin> digits \<and> CHR '' '' \<notin> digits"
  unfolding digits_def by code_simp

lemma read_show_int: "read_int (show_int i) = i"
proof (cases "i < 0")
  case True
  then show ?thesis by (simp add: show_int_def read_int_def read_show_nat)
next
  case False
  obtain c rest where eq: "show_nat (nat i) = c # rest"
    using show_nat_digits [of "nat i"] by (cases "show_nat (nat i)") auto
  moreover have "c \<noteq> CHR ''-''" using eq show_nat_digits [of "nat i"] signs_no_digit by auto
  ultimately have "read_int (show_nat (nat i)) = int (read_nat (show_nat (nat i)))"
    by (simp add: read_int_def)
  with False show ?thesis by (simp add: show_int_def read_show_nat)
qed

lemma show_nat_length: "n < 10 ^ k \<Longrightarrow> 0 < k \<Longrightarrow> length (show_nat n) \<le> k"
proof (induction n arbitrary: k rule: show_nat.induct)
  case (1 n)
  show ?case
  proof (cases "n < 10")
    case True
    then show ?thesis using "1.prems" by (simp add: show_nat.simps [of n])
  next
    case False
    from "1.prems" False obtain j where k: "k = Suc j" "0 < j"
      by (cases k; cases "k - 1") auto
    then have "n div 10 < 10 ^ j" using "1.prems" by (simp add: less_mult_imp_div_less mult.commute)
    from "1.IH" [OF False this k(2)] show ?thesis using False k by (simp add: show_nat.simps [of n])
  qed
qed

lemma show_int_length: "\<bar>i\<bar> < 10 ^ k \<Longrightarrow> 0 < k \<Longrightarrow> length (show_int i) \<le> Suc k"
  using show_nat_length [of "nat i" k] show_nat_length [of "nat (- i)" k]
  by (auto simp: show_int_def nat_less_iff le_SucI)

lemma show_int_no_blank: "CHR '' '' \<notin> set (show_int i)"
  using show_nat_digits signs_no_digit by (auto simp: show_int_def)

lemma pad_right_fits: "length str \<le> n \<Longrightarrow> length (pad_right n str) = n"
  by (simp add: pad_right_def)

section \<open>Properties\<close>

definition bench_cli :: cli_services where
  "bench_cli = \<lparr>cli_do_config_start = (\<lambda>_. True), cli_do_config_finish = (\<lambda>_ _. TXN_SUCCESS),
     FAN_SPEED_OVERRIDE_STR = ''fan_speed_override'', VTY_NEWLINE = [CHR 0x0A],
     rpm_datum = (\<lambda>_. True), no_key = Inl NullDeref,
     install_show_run_config_subcontext = E_vtysh_ok\<rparr>"

definition bench_shell :: cli where
  "bench_shell = \<lparr>cli_db = bench_db, cli_open_txns = 0, cli_out = ''''\<rparr>"

text \<open>C32: The setter's outcomes. On every path the transaction that was started is finished or
  aborted; the command succeeds exactly if a transaction could be started, there is a subsystem
  row and the server accepted the change or found none; after a failure the replica is what it
  was, and the terminal is not written in any case.\<close>

theorem fan_speed_set_outcomes:
  "let (result, t) = vtysh_ovsdb_fan_speed_set V speed to_set s in
     cli_open_txns t = cli_open_txns s \<and> cli_out t = cli_out s \<and>
     (result = CMD_SUCCESS) =
       (cli_do_config_start V (cli_db s) \<and>
        (case ovsrec_subsystem_first (cli_db s) of
           None \<Rightarrow> False
         | Some row \<Rightarrow> cli_do_config_finish V (cli_db s) (set_first_other_config
             (requested V speed to_set (cfg_other_config row)) (cli_db s))
             \<in> {TXN_SUCCESS, TXN_UNCHANGED})) \<and>
     (if result = CMD_SUCCESS then True else cli_db t = cli_db s)"
  by (auto simp: fan_speed_set_eq Let_def split: option.splits)

text \<open>From the shell to the daemon. A successful \<open>fan-speed\<close> command, with any word of its
  grammar, leaves the first subsystem with that override and everything else of the row as it
  was; when the daemon takes the row over, its override is the speed of that name, and so the
  speed in force unless a sensor asks for \<open>max\<close>.\<close>

lemma fan_speed_reaches_daemon:
  assumes "vtysh_fan_speed V word s = (CMD_SUCCESS, t)" and "word \<in> set fan_speed_words"
    and "FAN_SPEED_OVERRIDE_STR V = ''fan_speed_override''" and "honest_unchanged V"
  shows "\<exists>row row'. ovsrec_subsystem_first (cli_db s) = Some row \<and>
    ovsrec_subsystem_first (cli_db t) = Some row' \<and>
    row' = row\<lparr>cfg_other_config := (cfg_other_config row)(''fan_speed_override'' \<mapsto> word)\<rparr> \<and>
    (\<forall>sub. let sub' = take_config row' sub in
       fan_speed_enum_to_string (sub_fan_speed_override sub') = word \<and>
       effective_speed (sub_fan_speed_override sub') (sub_fan_speed sub') =
         (if sub_fan_speed sub' = FAND_SPEED_MAX then FAND_SPEED_MAX
          else sub_fan_speed_override sub'))"
proof -
  obtain row where row: "ovsrec_subsystem_first (cli_db s) = Some row"
    "ovsrec_subsystem_first (cli_db t) =
      Some (row\<lparr>cfg_other_config := requested V (Some word) True (cfg_other_config row)\<rparr>)"
    by (rule fan_speed_set_success [OF assms(1) [unfolded vtysh_fan_speed_def] assms(4)])
  show ?thesis
    using row assms(3) fan_speed_word [OF assms(2)]
    by (simp add: requested_def smap_replace_def smap_get_def effective_speed_eq Let_def)
qed

lemma fan_speed_reaches_daemon_bench:
  "\<exists>t row. vtysh_fan_speed bench_cli ''fast'' bench_shell = (CMD_SUCCESS, t) \<and>
     ovsrec_subsystem_first (cli_db t) = Some row \<and>
     fan_speed_enum_to_string (sub_fan_speed_override
       (take_config row (bench_sub FAND_SPEED_NONE FAND_SPEED_SLOW))) = ''fast''"
proof -
  obtain t where t: "vtysh_fan_speed bench_cli ''fast'' bench_shell = (CMD_SUCCESS, t)"
    by (simp add: vtysh_fan_speed_def fan_speed_set_eq bench_cli_def bench_shell_def
        ovsrec_subsystem_first_def)
  have "''fast'' \<in> set fan_speed_words" by (simp add: fan_speed_words_def)
  moreover have "FAN_SPEED_OVERRIDE_STR bench_cli = ''fan_speed_override''" "honest_unchanged bench_cli"
    by (simp_all add: bench_cli_def honest_unchanged_def)
  ultimately show ?thesis
    using fan_speed_reaches_daemon [OF t] t unfolding Let_def by blast
qed

text \<open>C30: Taking the override back. A successful \<open>no fan-speed\<close> removes the override and keeps
  every other key; the daemon then follows the sensors alone, never below slow.\<close>

theorem no_fan_speed_returns_to_sensors:
  assumes "vtysh_no_fan_speed V s = (CMD_SUCCESS, t)"
    and "FAN_SPEED_OVERRIDE_STR V = ''fan_speed_override''" and "honest_unchanged V"
  shows "\<exists>row row'. ovsrec_subsystem_first (cli_db s) = Some row \<and>
    ovsrec_subsystem_first (cli_db t) = Some row' \<and>
    smap_get (cfg_other_config row') ''fan_speed_override'' = None \<and>
    (\<forall>key. key \<noteq> ''fan_speed_override'' \<longrightarrow>
       smap_get (cfg_other_config row') key = smap_get (cfg_other_config row) key) \<and>
    (\<forall>sub. let sub' = take_config row' sub in
       effective_speed (sub_fan_speed_override sub') (sub_fan_speed sub') =
         highest_sensor (cfg_temp_sensors row))"
proof -
  obtain row where row: "ovsrec_subsystem_first (cli_db s) = Some row"
    "ovsrec_subsystem_first (cli_db t) =
      Some (row\<lparr>cfg_other_config := requested V None False (cfg_other_config row)\<rparr>)"
    by (rule fan_speed_set_success [OF assms(1) [unfolded vtysh_no_fan_speed_def] assms(3)])
  have "FAND_SPEED_SLOW \<le> highest_sensor (cfg_temp_sensors row)"
    unfolding highest_sensor_eq by (intro Max_ge) simp_all
  then have "highest_sensor (cfg_temp_sensors row) \<noteq> FAND_SPEED_NONE"
    by (auto simp: less_eq_fanspeed_def)
  with row assms(2) show ?thesis
    by (simp add: requested_def smap.get_del fan_speed_string_to_enum_def effective_speed_eq Let_def)
qed

theorem no_fan_speed_returns_to_sensors_witness:
  "\<exists>t row. vtysh_no_fan_speed bench_cli bench_shell = (CMD_SUCCESS, t) \<and>
     ovsrec_subsystem_first (cli_db t) = Some row \<and>
     smap_get (cfg_other_config row) ''fan_speed_override'' = None"
proof -
  obtain t where t: "vtysh_no_fan_speed bench_cli bench_shell = (CMD_SUCCESS, t)"
    by (simp add: vtysh_no_fan_speed_def fan_speed_set_eq bench_cli_def bench_shell_def
        ovsrec_subsystem_first_def)
  have "FAN_SPEED_OVERRIDE_STR bench_cli = ''fan_speed_override''" "honest_unchanged bench_cli"
    by (simp_all add: bench_cli_def honest_unchanged_def)
  with no_fan_speed_returns_to_sensors [OF t] t show ?thesis by blast
qed

text \<open>Entering the lines of a saved configuration.\<close>

definition replay :: "cli_services \<Rightarrow> string list \<Rightarrow> cli \<Rightarrow> cli" where
  "replay V lines s =
     fold (\<lambda>line s. case fan_speed_argument line of
         None \<Rightarrow> s
       | Some word \<Rightarrow> snd (vtysh_fan_speed V word s)) lines s"

text \<open>C31: Saving and restoring. The lines that the running configuration prints for a switch,
  entered into a shell whose switch has no override and accepts changes, give that switch the
  override of the first one, except that an override of \<open>normal\<close> is not printed and so not
  restored: the second switch then follows its sensors.\<close>

theorem running_config_restores_override:
  assumes "ovsrec_subsystem_first db = Some row" and "key = FAN_SPEED_OVERRIDE_STR V"
    and "override = smap_get (cfg_other_config row) key"
    and "\<forall>word. override = Some word \<longrightarrow> word \<in> set fan_speed_words"
    and "ovsrec_subsystem_first (cli_db s) = Some target"
    and "smap_get (cfg_other_config target) key = None"
    and "cli_do_config_start V (cli_db s)"
    and "\<And>view. cli_do_config_finish V (cli_db s) view = TXN_SUCCESS"
    and "lines = snd (vtysh_config_context_fan_clientcallback V db [])"
  shows "\<exists>row'. ovsrec_subsystem_first (cli_db (replay V lines s)) = Some row' \<and>
    smap_get (cfg_other_config row') key =
      (if override = Some ''normal'' then None else override)"
proof (cases "override = None \<or> override = Some ''normal''")
  case True
  then have "lines = []"
    using assms(1,2,3,9) by (auto simp: vtysh_config_context_fan_clientcallback_def
        vtysh_ovsdb_subsystemtable_parse_othercfg_def)
  with True assms(5,6) show ?thesis by (auto simp: replay_def)
next
  case False
  then obtain word where word: "override = Some word" "word \<noteq> ''normal''" by auto
  with assms(4) have grammar: "word \<in> set fan_speed_words" by simp
  have "smap_get (cfg_other_config row) (FAN_SPEED_OVERRIDE_STR V) = Some word"
    using word(1) assms(2,3) by simp
  then have lines: "lines = [''fan-speed '' @ word]"
    using assms(1,9) word(2) by (simp add: vtysh_config_context_fan_clientcallback_def
        vtysh_ovsdb_subsystemtable_parse_othercfg_def)
  have arg: "fan_speed_argument (''fan-speed '' @ word) = Some word"
    using grammar by (auto simp: fan_speed_argument_def fan_speed_words_def)
  have "replay V lines s = s\<lparr>cli_db := set_first_other_config
      (requested V (Some word) True (cfg_other_config target)) (cli_db s)\<rparr>"
    using assms(5,7,8) unfolding lines replay_def
    by (simp add: arg vtysh_fan_speed_def fan_speed_set_eq Let_def del: append.simps)
  then show ?thesis using assms(2,5) word by (simp add: requested_def)
qed

theorem running_config_restores_override_witness:
  "\<exists>row. ovsrec_subsystem_first (cli_db (replay bench_cli
      (snd (vtysh_config_context_fan_clientcallback bench_cli (bench_db\<lparr>db_subsystems :=
         [bench_cfg\<lparr>cfg_other_config := [''fan_speed_override'' \<mapsto> ''max'']\<rparr>]\<rparr>) []))
      bench_shell)) = Some row \<and>
     smap_get (cfg_other_config row) ''fan_speed_override'' = Some ''max''"
proof -
  let ?row = "bench_cfg\<lparr>cfg_other_config := [''fan_speed_override'' \<mapsto> ''max'']\<rparr>"
  let ?db = "bench_db\<lparr>db_subsystems := [?row]\<rparr>"
  have db: "ovsrec_subsystem_first ?db = Some ?row"
    and target: "ovsrec_subsystem_first (cli_db bench_shell) = Some bench_cfg"
    by (simp_all add: ovsrec_subsystem_first_def bench_shell_def)
  have override: "Some ''max'' = smap_get (cfg_other_config ?row) ''fan_speed_override''"
    and key: "''fan_speed_override'' = FAN_SPEED_OVERRIDE_STR bench_cli"
    and word: "\<forall>word. Some ''max'' = Some word \<longrightarrow> word \<in> set fan_speed_words"
    and none: "smap_get (cfg_other_config bench_cfg) ''fan_speed_override'' = None"
    and start: "cli_do_config_start bench_cli (cli_db bench_shell)"
    and finish: "\<And>view. cli_do_config_finish bench_cli (cli_db bench_shell) view = TXN_SUCCESS"
    by (simp_all add: smap_get_def bench_cli_def fan_speed_words_def)
  from running_config_restores_override [OF db key override word target none start finish refl]
  show ?thesis by simp
qed

text \<open>C33: The override that is not saved. For a subsystem whose sensors ask for fast, the
  override \<open>normal\<close> and no override are different configurations (the fans run at normal speed
  or fast), but the running configuration prints nothing for either.\<close>

theorem normal_override_not_saved:
  "vtysh_ovsdb_subsystemtable_parse_othercfg V
       (Some (smap_replace m (FAN_SPEED_OVERRIDE_STR V) ''normal'')) msg =
     vtysh_ovsdb_subsystemtable_parse_othercfg V
       (Some (smap_remove m (FAN_SPEED_OVERRIDE_STR V))) msg \<and>
   effective_speed (fan_speed_string_to_enum (Some ''normal'')) FAND_SPEED_FAST = FAND_SPEED_NORMAL \<and>
   effective_speed (fan_speed_string_to_enum None) FAND_SPEED_FAST = FAND_SPEED_FAST"
  by (simp add: vtysh_ovsdb_subsystemtable_parse_othercfg_def smap.get_put smap.get_del
      effective_speed_eq fan_speed_string_to_enum_def fanspeed_string_def fanspeed_of_index_def)

text \<open>The printing loop, when every row's rpm can be read.\<close>

lemma show_rows_eq:
  assumes "\<forall>row \<in> set rows. rpm_datum V row \<and> row_rpm row \<noteq> None"
  shows "\<exists>rpm'. for_each (show_fan_row V) rows (rpm, s) =
    Inr (rpm', s\<lparr>cli_out := cli_out s @ concat (map (\<lambda>row. fan_line V row (the (row_rpm row))) rows)\<rparr>)"
  using assms
proof (induction rows arbitrary: rpm s)
  case Nil
  then show ?case by (cases s) simp
next
  case (Cons row rows)
  then obtain v where v: "row_rpm row = Some v" "rpm_datum V row" by auto
  let ?s = "s\<lparr>cli_out := cli_out s @ fan_line V row v\<rparr>"
  have "\<forall>row \<in> set rows. rpm_datum V row \<and> row_rpm row \<noteq> None" using Cons.prems by simp
  from Cons.IH [OF this, of v ?s] obtain rpm' where
    "for_each (show_fan_row V) rows (v, ?s) = Inr (rpm', ?s\<lparr>cli_out :=
      cli_out ?s @ concat (map (\<lambda>row. fan_line V row (the (row_rpm row))) rows)\<rparr>)" by blast
  moreover have "show_fan_row V row (rpm, s) = Inr (v, ?s)"
    using v by (simp add: show_fan_row_def vty_out_def)
  ultimately show ?case using v by simp
qed

lemma show_rows_fault:
  assumes "\<exists>row \<in> set rows. rpm_datum V row \<and> row_rpm row = None" and "no_key V = Inl e"
  shows "for_each (show_fan_row V) rows (rpm, s) = Inl e"
  using assms(1)
proof (induction rows arbitrary: rpm s)
  case (Cons row rows)
  show ?case
  proof (cases "rpm_datum V row \<and> row_rpm row = None")
    case True
    then show ?thesis by (simp add: show_fan_row_def assms(2))
  next
    case False
    then obtain v where "show_fan_row V row (rpm, s) = Inr (v, vty_out (fan_line V row v) s)"
      by (cases "rpm_datum V row") (auto simp: show_fan_row_def)
    with Cons False show ?thesis by simp
  qed
qed simp

text \<open>The whole output.\<close>

lemma show_system_fan_output:
  assumes "ovsrec_subsystem_first (cli_db s) = Some sub"
    and "\<forall>row \<in> set (db_fans (cli_db s)). rpm_datum V row \<and> row_rpm row \<noteq> None"
    and "nl = VTY_NEWLINE V"
  shows "vtysh_show_system_fan V s = Inr (CMD_SUCCESS, s\<lparr>cli_out := cli_out s @
    show_title @ nl @ show_rule @ nl @ show_heading @ nl @ show_rule @ nl @
    concat (map (\<lambda>row. fan_line V row (the (row_rpm row))) (db_fans (cli_db s))) @
    show_rule @ nl @ show_override (smap_get (cfg_other_config sub) ''fan_speed_override'') @ nl @
    show_rule @ nl\<rparr>)"
proof -
  let ?s = "s\<lparr>cli_out := cli_out s @ show_title @ nl @ show_rule @ nl @ show_heading @ nl @ show_rule @ nl\<rparr>"
  obtain rpm' where loop: "for_each (show_fan_row V) (db_fans (cli_db s)) (0, ?s) = Inr (rpm',
      ?s\<lparr>cli_out := cli_out ?s @ concat (map (\<lambda>row. fan_line V row (the (row_rpm row))) (db_fans (cli_db s)))\<rparr>)"
    using show_rows_eq [OF assms(2)] by blast
  have "vtysh_show_system_fan V s = res_bind (vtysh_ovsdb_fan_show V ?s) (\<lambda>s. Inr (CMD_SUCCESS, s))"
    by (simp add: vtysh_show_system_fan_def vty_out_def assms(3))
  with assms(1) loop show ?thesis
    by (simp add: vtysh_ovsdb_fan_show_def vty_out_def assms(3))
qed

text \<open>C34: Showing the fans. With a subsystem row and an rpm in every fan row,
  \<open>show system fan\<close> succeeds and appends to the terminal the header, one line per fan row in
  table order with that row's own values, and the override between two rules; it changes nothing
  else.\<close>

theorem show_system_fan_prints:
  assumes "ovsrec_subsystem_first (cli_db s) = Some sub"
    and "\<forall>row \<in> set (db_fans (cli_db s)). rpm_datum V row \<and> row_rpm row \<noteq> None"
    and "nl = VTY_NEWLINE V"
  shows "vtysh_show_system_fan V s = Inr (CMD_SUCCESS, s\<lparr>cli_out := cli_out s @
    show_title @ nl @ show_rule @ nl @ show_heading @ nl @ show_rule @ nl @
    concat (map (\<lambda>row. fan_line V row (the (row_rpm row))) (db_fans (cli_db s))) @
    show_rule @ nl @ show_override (smap_get (cfg_other_config sub) ''fan_speed_override'') @ nl @
    show_rule @ nl\<rparr>)"
  by (rule show_system_fan_output [OF assms])

definition bench_shown :: cli where
  "bench_shown = bench_shell\<lparr>cli_db := bench_db\<lparr>db_fans :=
     [\<lparr>row_uuid = 1, row_name = ''base-1L'', row_status = ''ok'', row_direction = ''f2b'',
       row_speed = ''fast'', row_rpm = Some 6000\<rparr>]\<rparr>\<rparr>"

lemma show_6000: "show_int 6000 = ''6000''"
  by (simp add: show_int_def show_nat.simps char_of_def bit_0)

theorem show_system_fan_prints_witness:
  "\<exists>t. vtysh_show_system_fan bench_cli bench_shown = Inr (CMD_SUCCESS, t) \<and>
     (\<exists>pre post. cli_out t =
        pre @ (''base-1L      fast   front-to-back  ok            6000    '' @ [CHR 0x0A]) @ post)"
proof -
  have first: "ovsrec_subsystem_first (cli_db bench_shown) = Some bench_cfg"
    and rows: "\<forall>row \<in> set (db_fans (cli_db bench_shown)). rpm_datum bench_cli row \<and> row_rpm row \<noteq> None"
    by (simp_all add: bench_shown_def ovsrec_subsystem_first_def bench_cli_def)
  have line: "concat (map (\<lambda>row. fan_line bench_cli row (the (row_rpm row))) (db_fans (cli_db bench_shown))) =
      ''base-1L      fast   front-to-back  ok            6000    '' @ [CHR 0x0A]"
    by (simp add: bench_shown_def fan_line_def show_6000 pad_right_def show_direction_def
        bench_cli_def numeral_eq_Suc)
  have out: "cli_out (u\<lparr>cli_out := x\<rparr>) = x" for u x by simp
  have regroup: "\<exists>pre post. a @ b @ c @ d @ e @ f @ g @ h @ i @ x @ rest = pre @ x @ post"
    for a b c d e f g h i x rest :: string
    by (rule exI [where x = "a @ b @ c @ d @ e @ f @ g @ h @ i"]) auto
  show ?thesis
    unfolding show_system_fan_prints [OF first rows refl] line
    by (rule exI, rule conjI, rule refl, unfold out, rule regroup)
qed



text \<open>C36: The columns. For a fan row whose texts are no wider than their columns and whose
  rpm has at most six digits, the printed line has the name, speed, direction and status at fixed
  positions, and the number in the last column reads back as the row's rpm, sign included.\<close>

theorem fan_line_reads_back:
  assumes "length (row_name row) \<le> 13" and "length (row_speed row) \<le> 7"
    and "length (row_status row) \<le> 14" and "\<bar>sint rpm\<bar> < 10 ^ 6"
  shows "let line = fan_line V row rpm in
    take 13 line = pad_right 13 (row_name row) \<and>
    take 7 (drop 13 line) = pad_right 7 (row_speed row) \<and>
    take 15 (drop 20 line) = pad_right 15 (show_direction (row_direction row)) \<and>
    take 14 (drop 35 line) = pad_right 14 (row_status row) \<and>
    read_int (takeWhile (\<lambda>c. c \<noteq> CHR '' '') (drop 49 line)) = sint rpm"
proof -
  have direction: "length (show_direction (row_direction row)) \<le> 15"
    by (simp add: show_direction_def)
  have "length (show_int (sint rpm)) \<le> 7" using show_int_length [OF assms(4)] by simp
  then obtain m where "8 - length (show_int (sint rpm)) = Suc m"
    by (cases "8 - length (show_int (sint rpm))") auto
  then have "takeWhile (\<lambda>c. c \<noteq> CHR '' '') (pad_right 8 (show_int (sint rpm)) @ rest) =
      show_int (sint rpm)" for rest
    using show_int_no_blank [of "sint rpm"] by (auto simp: pad_right_def takeWhile_append)
  then show ?thesis
    using pad_right_fits [OF assms(1)] pad_right_fits [OF assms(2)] pad_right_fits [OF assms(3)]
      pad_right_fits [OF direction]
    by (simp add: fan_line_def Let_def read_show_int)
qed

theorem fan_line_reads_back_witness:
  "read_int (takeWhile (\<lambda>c. c \<noteq> CHR '' '') (drop 49 (fan_line bench_cli
     \<lparr>row_uuid = 1, row_name = ''base-1L'', row_status = ''ok'', row_direction = ''f2b'',
       row_speed = ''fast'', row_rpm = Some (- 1)\<rparr> (- 1)))) = - 1"
proof -
  let ?row = "\<lparr>row_uuid = 1, row_name = ''base-1L'', row_status = ''ok'', row_direction = ''f2b'',
       row_speed = ''fast'', row_rpm = Some (- 1)\<rparr>"
  have "length (row_name ?row) \<le> 13" "length (row_speed ?row) \<le> 7" "length (row_status ?row) \<le> 14"
    "\<bar>sint (- 1 :: s64)\<bar> < 10 ^ 6" by simp_all
  from fan_line_reads_back [OF this, of bench_cli] show ?thesis unfolding Let_def by simp
qed

end
