(* ===== verification/Switch.thy ===== *)
theory Switch
  imports Abstraction Idl Cli
begin

text \<open>
  The daemon and the shell around one database. So far the replica that an iteration starts
  with was an input. Here it is the content of the database as the shell, the temperature
  daemon and the fan daemon itself have left it, in any interleaving of their transactions, so
  the conditions on the inputs become facts about the system.
\<close>

section \<open>The system\<close>

text \<open>
  A step is a \<open>fan-speed\<close> or \<open>no fan-speed\<close> of a shell whose replica is up to date, a report of
  the temperature daemon on the sensors of the \<open>i\<close>-th subsystem, or an iteration of the fan
  daemon with the commands of its control socket.
\<close>

datatype step =
    Fan_Speed string
  | No_Fan_Speed
  | Sensors nat "string list"
  | Round bool bool "command list"   \<comment> \<open>lock contended, lock held, commands\<close>

record ('y, 'w) switch =
  sw_db :: ovsdb
  sw_daemon :: "('y, 'w) daemon"

text \<open>
  The transaction of another process: if it changed anything, the daemon's library advances its
  sequence number, since the daemon did not omit the alerts of the columns that others write.
  What they can change are sensor states and the value of the override.
\<close>

definition others_columns :: "cli_services \<Rightarrow> ovsdb \<Rightarrow> (string list \<times> string option) list" where
  "others_columns V db = map (\<lambda>cfg.
     (cfg_temp_sensors cfg, smap_get (cfg_other_config cfg) (FAN_SPEED_OVERRIDE_STR V))) (db_subsystems db)"

definition others_commit :: "cli_services \<Rightarrow> ovsdb \<Rightarrow> ovsdb \<Rightarrow> ovsdb" where
  "others_commit V db view =
     (if others_columns V view = others_columns V db then db
      else view\<lparr>db_seqno := db_seqno db + 1\<rparr>)"

definition shell_on :: "ovsdb \<Rightarrow> cli" where
  "shell_on db = \<lparr>cli_db = db, cli_open_txns = 0, cli_out = ''''\<rparr>"

definition report_sensors :: "nat \<Rightarrow> string list \<Rightarrow> ovsdb \<Rightarrow> ovsdb" where
  "report_sensors i states db = db\<lparr>db_subsystems := map (\<lambda>(j, cfg).
     if j = i then cfg\<lparr>cfg_temp_sensors := states\<rparr> else cfg) (enumerate 0 (db_subsystems db))\<rparr>"

definition switch_step ::
  "cli_services \<Rightarrow> ('y, 'w) services \<Rightarrow> step \<Rightarrow> ('y, 'w) switch \<Rightarrow> ('y, 'w) switch res" where
  "switch_step V E e s =
     (let db = sw_db s in
      case e of
        Fan_Speed word \<Rightarrow>
          Inr (s\<lparr>sw_db := others_commit V db (cli_db (snd (vtysh_fan_speed V word (shell_on db))))\<rparr>)
      | No_Fan_Speed \<Rightarrow>
          Inr (s\<lparr>sw_db := others_commit V db (cli_db (snd (vtysh_no_fan_speed V (shell_on db))))\<rparr>)
      | Sensors i states \<Rightarrow> Inr (s\<lparr>sw_db := others_commit V db (report_sensors i states db)\<rparr>)
      | Round contended lock commands \<Rightarrow>
          if exiting (sw_daemon s) then Inr s
          else
            res_bind (main_iteration E
              \<lparr>in_db = db, in_lock_contended = contended, in_has_lock = lock\<rparr> commands (sw_daemon s))
              (\<lambda>d. Inr (s\<lparr>sw_daemon := d, sw_db := idl_db (proc d)\<rparr>)))"

definition switch_run ::
  "cli_services \<Rightarrow> ('y, 'w) services \<Rightarrow> step list \<Rightarrow> ('y, 'w) switch \<Rightarrow> ('y, 'w) switch res" where
  "switch_run V E = for_each (switch_step V E)"

text \<open>The daemon has just been started; its replica is still empty.\<close>

definition switch_start ::
  "('y, 'w) services \<Rightarrow> 'w \<Rightarrow> ovsdb \<Rightarrow> ovsdb \<Rightarrow> ('y, 'w) switch" where
  "switch_start E w replica db = \<lparr>sw_db = db, sw_daemon = main_start E w replica\<rparr>"

section \<open>Invariant\<close>

text \<open>
  The subsystem table is that of the start as long as no transaction adds or removes a
  subsystem; only the number of the empty replica stands for the empty table.
\<close>

definition table_of :: "ovsdb \<Rightarrow> u32 \<Rightarrow> table" where
  "table_of db n = (if n = 0 then [] else subsystem_table db)"

text \<open>Every loadable row is managed the way it asks for.\<close>

definition in_sync :: "catalog \<Rightarrow> ovsdb \<Rightarrow> view \<Rightarrow> bool" where
  "in_sync cat db v \<longleftrightarrow>
     (\<forall>cfg \<in> set (db_subsystems db). loadable cat cfg \<longrightarrow> v (cfg_name cfg) = Some (asked cat cfg))"

text \<open>
  \<open>n\<close> bounds the transactions still to come, so that the sequence number does not wrap. The
  daemon is at most as far as the database, and in sync if it is as far.
\<close>

definition coherent ::
  "('y, 'w) services \<Rightarrow> catalog \<Rightarrow> (u32 \<Rightarrow> table) \<Rightarrow> nat \<Rightarrow> ('y, 'w) switch \<Rightarrow> bool" where
  "coherent E cat tbl n s \<longleftrightarrow>
     running E cat tbl (proc (sw_daemon s)) \<and> consistent cat tbl (sw_db s) \<and>
     0 < unat (db_seqno (sw_db s)) \<and> unat (db_seqno (sw_db s)) + n < 2 ^ 32 \<and>
     unat (idl_seqno (proc (sw_daemon s))) \<le> unat (db_seqno (sw_db s)) \<and>
     (idl_seqno (proc (sw_daemon s)) = db_seqno (sw_db s) \<longrightarrow>
        in_sync cat (sw_db s) (registry_view (proc (sw_daemon s))))"

lemma coherent_less: "coherent E cat tbl n s \<Longrightarrow> m \<le> n \<Longrightarrow> coherent E cat tbl m s"
  by (auto simp: coherent_def)

lemma coherent_start:
  assumes "db_seqno replica = 0" and "consistent cat (table_of db) db"
    and "0 < db_seqno db" and "unat (db_seqno db) + n < 2 ^ 32"
  shows "coherent E cat (table_of db) n (switch_start E w replica db)"
proof -
  have run: "running E cat (table_of db) (fand_init E w replica)"
    by (rule running_init) (simp add: assms(1) table_of_def)
  have "idl_seqno (fand_init E w replica) = 0"
    by (simp add: fand_init_def init_subsystems_def assms(1))
  with run assms show ?thesis
    by (auto simp: coherent_def switch_start_def main_start_def unat_gt_0)
qed

section \<open>Steps of the other processes\<close>

lemma subsystem_table_names:
  "subsystem_table db' = subsystem_table db \<Longrightarrow>
     map cfg_name (db_subsystems db') = map cfg_name (db_subsystems db)"
  unfolding subsystem_table_def by (drule arg_cong [where f = "map fst"]) (simp add: comp_def)

lemma consistent_table:
  assumes "consistent cat tbl db" and "subsystem_table db' = subsystem_table db"
    and "row_names db' \<subseteq> managed_names cat (db_subsystems db)" and "tbl (db_seqno db') = tbl (db_seqno db)"
  shows "consistent cat tbl db'"
proof -
  note names = subsystem_table_names [OF assms(2)]
  have "managed_names cat (db_subsystems db') = managed_names cat (db_subsystems db)"
    using managed_by_table [of cat db] managed_by_table [of cat db'] assms(2) by simp
  moreover have "cfg_name ` set (db_subsystems db') = cfg_name ` set (db_subsystems db)"
    using names by (metis set_map)
  ultimately show ?thesis
    using assms names unfolding consistent_def by (metis imageE imageI)
qed

lemma coherent_others:
  assumes "coherent E cat (table_of db0) (Suc n) s" and "subsystem_table view = subsystem_table (sw_db s)"
    and "row_names view = row_names (sw_db s)"
  shows "coherent E cat (table_of db0) n (s\<lparr>sw_db := others_commit V (sw_db s) view\<rparr>)"
proof (cases "others_columns V view = others_columns V (sw_db s)")
  case True
  then have "s\<lparr>sw_db := others_commit V (sw_db s) view\<rparr> = s" by (simp add: others_commit_def)
  with coherent_less [OF assms(1)] show ?thesis by simp
next
  case False
  let ?db = "view\<lparr>db_seqno := db_seqno (sw_db s) + 1\<rparr>"
  have next_seqno: "unat (db_seqno (sw_db s) + 1) = Suc (unat (db_seqno (sw_db s)))"
    using assms(1) by (simp add: coherent_def unat_word_ariths)
  have "consistent cat (table_of db0) ?db"
  proof (rule consistent_table)
    show "consistent cat (table_of db0) (sw_db s)" using assms(1) by (simp add: coherent_def)
    then show "row_names ?db \<subseteq> managed_names cat (db_subsystems (sw_db s))"
      using assms(3) by (simp add: consistent_def row_names_def)
    show "subsystem_table ?db = subsystem_table (sw_db s)"
      using assms(2) by (simp add: subsystem_table_def)
    have "db_seqno (sw_db s) \<noteq> 0" "db_seqno (sw_db s) + 1 \<noteq> 0"
      using assms(1) next_seqno by (auto simp: coherent_def)
    then show "table_of db0 (db_seqno ?db) = table_of db0 (db_seqno (sw_db s))"
      by (simp add: table_of_def)
  qed
  moreover have "others_commit V (sw_db s) view = ?db" using False by (simp add: others_commit_def)
  ultimately show ?thesis
    using assms(1) next_seqno by (auto simp: coherent_def)
qed

text \<open>The shell and the temperature daemon leave the names, the directories and the fan rows.\<close>

lemma set_first_other_config_table [simp]:
  "subsystem_table (set_first_other_config m db) = subsystem_table db"
  "row_names (set_first_other_config m db) = row_names db"
  by (simp_all add: subsystem_table_def set_first_other_config_def row_names_def split: list.splits)

text \<open>
  Nothing that the others write escapes the test of \<open>others_commit\<close>: without an advance of the
  sequence number the database is the same.
\<close>

lemma requested_unchanged:
  "smap_get (requested V speed to_set m) (FAN_SPEED_OVERRIDE_STR V) =
     smap_get m (FAN_SPEED_OVERRIDE_STR V) \<Longrightarrow> requested V speed to_set m = m"
  by (auto simp: requested_def smap_get_def smap_replace_def smap_remove_def fun_eq_iff split: if_splits)

lemma fan_speed_set_unseen:
  assumes "vtysh_ovsdb_fan_speed_set V speed to_set (shell_on db) = (r, t)"
    and "others_columns V (cli_db t) = others_columns V db"
  shows "cli_db t = db"
proof (cases "cli_db t = db")
  case False
  with assms(1) obtain cfg where cfg: "ovsrec_subsystem_first db = Some cfg"
    "cli_db t = set_first_other_config (requested V speed to_set (cfg_other_config cfg)) db"
    by (auto simp: fan_speed_set_eq Let_def shell_on_def split: option.splits if_splits)
  then obtain rest where rest: "db_subsystems db = cfg # rest"
    by (auto simp: ovsrec_subsystem_first_def split: list.splits)
  have "smap_get (requested V speed to_set (cfg_other_config cfg)) (FAN_SPEED_OVERRIDE_STR V) =
      smap_get (cfg_other_config cfg) (FAN_SPEED_OVERRIDE_STR V)"
    using assms(2) cfg(2) rest by (simp add: others_columns_def set_first_other_config_def)
  from requested_unchanged [OF this] cfg(2) rest show ?thesis
    by (cases db, cases cfg) (simp add: set_first_other_config_def)
qed

lemma report_sensors_unseen:
  assumes "others_columns V (report_sensors i states db) = others_columns V db"
  shows "report_sensors i states db = db"
proof -
  have "map (\<lambda>(j, cfg). if j = i then cfg\<lparr>cfg_temp_sensors := states\<rparr> else cfg) (enumerate k cfgs) = cfgs"
    if "map cfg_temp_sensors (map (\<lambda>(j, cfg).
        if j = i then cfg\<lparr>cfg_temp_sensors := states\<rparr> else cfg) (enumerate k cfgs)) =
      map cfg_temp_sensors cfgs" for k cfgs
    using that by (induction cfgs arbitrary: k) (auto split: if_splits)
  from this [of 0 "db_subsystems db"]
  have unseen: "db_subsystems (report_sensors i states db) = db_subsystems db"
    if "map cfg_temp_sensors (db_subsystems (report_sensors i states db)) =
      map cfg_temp_sensors (db_subsystems db)"
    using that by (simp add: report_sensors_def)
  have "map cfg_temp_sensors (db_subsystems (report_sensors i states db)) =
      map cfg_temp_sensors (db_subsystems db)"
    using arg_cong [OF assms, of "map fst"] by (simp add: others_columns_def comp_def)
  from unseen [OF this] show ?thesis by (cases db) (simp add: report_sensors_def)
qed

lemma fan_speed_set_table:
  assumes "vtysh_ovsdb_fan_speed_set V speed to_set (shell_on db) = (r, t)"
  shows "subsystem_table (cli_db t) = subsystem_table db" and "row_names (cli_db t) = row_names db"
  using assms
  by (auto simp: fan_speed_set_eq Let_def shell_on_def split: option.splits if_splits)

lemma report_sensors_table:
  "subsystem_table (report_sensors i states db) = subsystem_table db"
  "row_names (report_sensors i states db) = row_names db"
proof -
  have "map (\<lambda>cfg. (cfg_name cfg, cfg_hw_desc_dir cfg)) (map (\<lambda>(j, cfg).
      if j = i then cfg\<lparr>cfg_temp_sensors := states\<rparr> else cfg) (enumerate k cfgs)) =
    map (\<lambda>cfg. (cfg_name cfg, cfg_hw_desc_dir cfg)) cfgs" for cfgs k
    by (induction cfgs arbitrary: k) auto
  then show "subsystem_table (report_sensors i states db) = subsystem_table db"
    by (simp add: subsystem_table_def report_sensors_def)
qed (simp add: row_names_def report_sensors_def)

section \<open>Iterations\<close>

text \<open>The daemon's own transactions concern only what it is in sync with anyway.\<close>

lemma in_sync_alerting:
  assumes "same_alerting db db'"
  shows "in_sync cat db' v = in_sync cat db v"
proof -
  let ?strip = "\<lambda>cfg. cfg\<lparr>cfg_fans := []\<rparr> :: ovsrec_subsystem"
  have "in_sync cat db v \<longleftrightarrow> (\<forall>cfg \<in> set (map ?strip (db_subsystems db)).
      loadable cat cfg \<longrightarrow> v (cfg_name cfg) = Some (asked cat cfg))" for db
    by (simp add: in_sync_def loadable_def has_directory_def asked_def Let_def)
  with assms show ?thesis by (simp only: same_alerting_def)
qed

lemma same_alerting_table:
  assumes "same_alerting db db'"
  shows "subsystem_table db' = subsystem_table db"
proof -
  have "subsystem_table db = map (\<lambda>cfg. (cfg_name cfg, cfg_hw_desc_dir cfg))
      (map (\<lambda>cfg. cfg\<lparr>cfg_fans := []\<rparr>) (db_subsystems db))" for db
    by (simp add: subsystem_table_def)
  with assms show ?thesis by (simp only: same_alerting_def)
qed

lemma in_sync_reconfigured:
  assumes "distinct (map cfg_name (db_subsystems db))"
  shows "in_sync cat db (spec_reconfigure cat (db_subsystems db) v)"
  unfolding in_sync_def
proof (intro ballI impI)
  fix cfg assume cfg: "cfg \<in> set (db_subsystems db)" "loadable cat cfg"
  have "find (\<lambda>c. cfg_name c = cfg_name cfg) cfgs = Some cfg"
    if "cfg \<in> set cfgs" "distinct (map cfg_name cfgs)" for cfgs
    using that by (induction cfgs) (auto intro: rev_image_eqI)
  with cfg(1) assms have "find (\<lambda>c. cfg_name c = cfg_name cfg) (db_subsystems db) = Some cfg"
    by blast
  with cfg(2) show "spec_reconfigure cat (db_subsystems db) v (cfg_name cfg) = Some (asked cat cfg)"
    by (simp add: spec_reconfigure_def)
qed

lemma fand_run_rows:
  assumes plat: "platform E cat" and run: "running E cat tbl s"
    and db: "consistent cat tbl (in_db inp)" and t: "fand_run E inp s = Inr t"
  shows "row_names (idl_db t) \<subseteq> managed_names cat (db_subsystems (in_db inp))"
proof (cases "in_lock_contended inp \<or> \<not> in_has_lock inp")
  case True
  with fand_run_idle [OF True, of E s] t db show ?thesis by (auto simp: consistent_def)
next
  case False
  have lib: "yaml_library E cat" using plat by (simp add: platform_def)
  obtain u where u: "fand_reconfigure E (s\<lparr>idl_db := in_db inp\<rparr>) = Inr u" "running E cat tbl u"
    "row_names (idl_db u) \<subseteq> fst ` set (fan_data u)"
    "row_names (idl_db u) \<subseteq> managed_names cat (db_subsystems (in_db inp))"
    by (rule reconfigure_run [OF lib run db]) blast
  have "daemon_ok E cat u" using u(2) by (simp add: running_def settled_def)
  then obtain t' where "fand_read_status E u = Inr t'" "row_names (idl_db t') = row_names (idl_db u)"
    by (rule fand_read_status_ok [OF plat _ u(3)]) blast
  moreover have "fand_read_status E u = Inr t" using t False u(1) by (simp add: fand_run_def Let_def)
  ultimately show ?thesis using u(4) by simp
qed

lemma coherent_round:
  assumes plat: "platform E cat" and coh: "coherent E cat (table_of db0) n s"
    and going: "\<not> exiting (sw_daemon s)"
  obtains t where "switch_step V E (Round contended lock cs) s = Inr t"
    and "coherent E cat (table_of db0) n t" and "exiting (sw_daemon t) = (Exit \<in> set cs)"
    and "same_alerting (sw_db s) (sw_db t)" and "idl_db (proc (sw_daemon t)) = sw_db t"
    and "\<not> contended \<and> lock \<Longrightarrow> idl_seqno (proc (sw_daemon t)) = db_seqno (sw_db t)"
    and "fand_run E \<lparr>in_db = sw_db s, in_lock_contended = contended, in_has_lock = lock\<rparr>
      (proc (sw_daemon s)) = Inr (proc (sw_daemon t))"
proof -
  let ?inp = "\<lparr>in_db = sw_db s, in_lock_contended = contended, in_has_lock = lock\<rparr>"
  let ?d = "sw_daemon s"
  have run: "running E cat (table_of db0) (proc ?d)" and db: "consistent cat (table_of db0) (in_db ?inp)"
    using coh by (simp_all add: coherent_def)
  obtain e where e: "main_iteration E ?inp cs ?d = Inr e" "running E cat (table_of db0) (proc e)"
    "fand_run E ?inp (proc ?d) = Inr (proc e)" "exiting e = (Exit \<in> set cs)"
    by (rule main_iteration_ok [OF plat run db, of cs]) (use going in simp)
  define t where "t = s\<lparr>sw_daemon := e, sw_db := idl_db (proc e)\<rparr>"
  have same: "same_alerting (sw_db s) (sw_db t)"
    using fand_run_alerting [OF e(3)] by (simp add: t_def)
  then have seqno: "db_seqno (sw_db t) = db_seqno (sw_db s)" by (simp add: same_alerting_def)
  have "consistent cat (table_of db0) (sw_db t)"
    by (rule consistent_table [OF db])
      (use same_alerting_table [OF same] fand_run_rows [OF plat run db e(3)] seqno in \<open>simp_all add: t_def\<close>)
  moreover have "abstraction (proc e) = spec_iteration cat ?inp (abstraction (proc ?d))"
    by (rule fand_run_refines [OF plat run db e(3)])
  then have "if contended \<or> \<not> lock \<or> db_seqno (sw_db s) = idl_seqno (proc ?d)
    then idl_seqno (proc e) = idl_seqno (proc ?d) \<and> registry_view (proc e) = registry_view (proc ?d)
    else idl_seqno (proc e) = db_seqno (sw_db s) \<and> in_sync cat (sw_db s) (registry_view (proc e))"
    using in_sync_reconfigured [of "sw_db s" cat] db
    by (cases "contended \<or> \<not> lock \<or> db_seqno (sw_db s) = idl_seqno (proc ?d)")
      (auto simp: abstraction_def spec_iteration_def consistent_def)
  ultimately have "coherent E cat (table_of db0) n t"
    and "\<not> contended \<and> lock \<Longrightarrow> idl_seqno (proc e) = db_seqno (sw_db s)"
    using coh e(2) in_sync_alerting [OF same, of cat] seqno
    by (auto simp: coherent_def t_def split: if_splits)
  with that [of t] e same seqno going show thesis
    by (simp add: switch_step_def t_def)
qed

text \<open>Every step keeps the invariant.\<close>

lemma coherent_step:
  assumes plat: "platform E cat" and coh: "coherent E cat (table_of db0) (Suc n) s"
  shows "\<exists>t. switch_step V E e s = Inr t \<and> coherent E cat (table_of db0) n t"
proof (cases e)
  case (Fan_Speed word)
  obtain r t where "vtysh_fan_speed V word (shell_on (sw_db s)) = (r, t)" by fastforce
  with coherent_others [OF coh, of "cli_db t"] fan_speed_set_table [of V _ True "sw_db s" r t] Fan_Speed
  show ?thesis by (simp add: switch_step_def vtysh_fan_speed_def)
next
  case No_Fan_Speed
  obtain r t where "vtysh_no_fan_speed V (shell_on (sw_db s)) = (r, t)" by fastforce
  with coherent_others [OF coh, of "cli_db t"] fan_speed_set_table [of V _ False "sw_db s" r t] No_Fan_Speed
  show ?thesis by (simp add: switch_step_def vtysh_no_fan_speed_def)
next
  case (Sensors i states)
  with coherent_others [OF coh, of "report_sensors i states (sw_db s)"] report_sensors_table [of i states "sw_db s"]
  show ?thesis by (simp add: switch_step_def Let_def)
next
  case (Round contended lock cs)
  show ?thesis
  proof (cases "exiting (sw_daemon s)")
    case True
    with Round coherent_less [OF coh] show ?thesis by (simp add: switch_step_def)
  next
    case False
    from coherent_less [OF coh, of n] have "coherent E cat (table_of db0) n s" by simp
    from coherent_round [OF plat this False, of V contended lock cs] show ?thesis
      unfolding Round by blast
  qed
qed

lemma coherent_run:
  assumes plat: "platform E cat" and "coherent E cat (table_of db0) (length es + n) s"
  obtains t where "switch_run V E es s = Inr t" and "coherent E cat (table_of db0) n t"
proof -
  have "\<exists>t. for_each (switch_step V E) es s = Inr t \<and> coherent E cat (table_of db0) (length ([] :: step list) + n) t"
  proof (rule for_each_safe [where P = "\<lambda>es. coherent E cat (table_of db0) (length es + n)"])
    show "coherent E cat (table_of db0) (length es + n) s" by (rule assms(2))
    show "\<exists>t. switch_step V E e s = Inr t \<and> coherent E cat (table_of db0) (length rest + n) t"
      if "coherent E cat (table_of db0) (length (e # rest) + n) s" for e rest s
      by (rule coherent_step [OF plat]) (use that in simp)
  qed
  with that show thesis by (auto simp: switch_run_def)
qed

lemma switch_run_append:
  "switch_run V E (es @ fs) s = res_bind (switch_run V E es s) (switch_run V E fs)"
  by (simp add: switch_run_def for_each_append)

text \<open>The daemon lives as long as nobody sends it the exit command.\<close>

definition no_exit :: "step list \<Rightarrow> bool" where
  "no_exit es \<longleftrightarrow> list_all (\<lambda>e. case e of Round c l cs \<Rightarrow> Exit \<notin> set cs | _ \<Rightarrow> True) es"

lemma switch_step_going:
  assumes "switch_step V E e s = Inr t" and "\<not> exiting (sw_daemon s)" and "no_exit [e]"
  shows "\<not> exiting (sw_daemon t)"
  using assms
  by (cases e) (auto simp: switch_step_def Let_def no_exit_def res_bind_eq_Inr main_iteration_def
      dest!: run_commands_exiting)

lemma switch_run_going:
  assumes "switch_run V E es s = Inr t" and "\<not> exiting (sw_daemon s)" and "no_exit es"
  shows "\<not> exiting (sw_daemon t)"
  using assms
proof (induction es arbitrary: s)
  case (Cons e es)
  then obtain u where u: "switch_step V E e s = Inr u" "switch_run V E es u = Inr t"
    by (auto simp: switch_run_def res_bind_eq_Inr)
  have "\<not> exiting (sw_daemon u)"
    by (rule switch_step_going [OF u(1) Cons.prems(2)]) (use Cons.prems(3) in \<open>simp add: no_exit_def\<close>)
  with Cons.IH [OF u(2)] Cons.prems(3) show ?case by (simp add: no_exit_def)
qed (simp add: switch_run_def)

section \<open>What a publication says of a managed subsystem\<close>

text \<open>A registered fan of a described name belongs to the subsystem of that description.\<close>

lemma fan_of_subsystem:
  assumes ok: "daemon_ok E cat s" and "(n, a) \<in> set (subsystem_data s)"
    and sub: "subsystem_heap s a = Some sub" "sub_valid sub"
    and "m \<in> set (catalog_names cat n)" and "(m, fa) \<in> set (fan_data s)" and "fan_heap s fa = Some f"
  shows "speed_of s f = Some (sub_speed sub)"
proof -
  note reg = daemon_ok_D(1) [OF ok]
  have name: "sub_name sub = n" using registered_subsystem [OF reg assms(2)] sub(1) by auto
  obtain info frus where known: "entry_known E cat s sub info frus"
    using subsystem_known_valid [OF daemon_ok_D(3) [OF ok assms(2) sub(1)] sub(2)] .
  have "m \<in> fst ` set (subsystem_fans sub)"
    using assms(5) unfolding entry_known_D(5) [OF known] name .
  then obtain fa' where fa': "(m, fa') \<in> set (subsystem_fans sub)" by auto
  from registry_ok_D(3) [OF reg assms(2)] sub(1) fa' obtain g where
    "(m, fa') \<in> set (fan_data s)" "fan_heap s fa' = Some g" "fan_subsystem g = a"
    unfolding subsystem_ok_def by fastforce
  moreover from this(1) assms(6) have "fa' = fa"
    using eq_key_imp_eq_value [OF registry_ok_D(2) [OF reg]] by blast
  ultimately show ?thesis using assms(7) sub(1) by (simp add: speed_of_def)
qed

lemma round_publishes:
  assumes plat: "platform E cat" and coh: "coherent E cat (table_of db0) n s"
    and going: "\<not> exiting (sw_daemon s)" and accepts: "\<And>w db view. commit_ok E w db view"
  obtains t where "switch_step V E (Round False True cs) s = Inr t"
    and "coherent E cat (table_of db0) n t" and "same_alerting (sw_db s) (sw_db t)"
    and "\<forall>row \<in> set (db_fans (sw_db t)). row_rpm row \<noteq> None"
    and "\<And>cfg row. cfg \<in> set (db_subsystems (sw_db t)) \<Longrightarrow> loadable cat cfg \<Longrightarrow>
      row \<in> set (db_fans (sw_db t)) \<Longrightarrow> row_name row \<in> set (catalog_names cat (cfg_name cfg)) \<Longrightarrow>
      row_speed row = fan_speed_enum_to_string (m_speed (asked cat cfg))"
proof -
  let ?inp = "\<lparr>in_db = sw_db s, in_lock_contended = False, in_has_lock = True\<rparr>"
  obtain t where t: "switch_step V E (Round False True cs) s = Inr t"
    "coherent E cat (table_of db0) n t" "same_alerting (sw_db s) (sw_db t)"
    "idl_db (proc (sw_daemon t)) = sw_db t" "idl_seqno (proc (sw_daemon t)) = db_seqno (sw_db t)"
    "fand_run E ?inp (proc (sw_daemon s)) = Inr (proc (sw_daemon t))"
    by (rule coherent_round [OF plat coh going, of V False True cs]) blast
  let ?p = "proc (sw_daemon t)"
  have run: "running E cat (table_of db0) (proc (sw_daemon s))"
    and db: "consistent cat (table_of db0) (in_db ?inp)" and lib: "yaml_library E cat"
    using coh plat by (simp_all add: coherent_def platform_def)
  obtain u where u: "fand_reconfigure E (proc (sw_daemon s)\<lparr>idl_db := in_db ?inp\<rparr>) = Inr u"
    "running E cat (table_of db0) u" "row_names (idl_db u) \<subseteq> fst ` set (fan_data u)"
    by (rule reconfigure_run [OF lib run db]) blast
  have read: "fand_read_status E u = Inr ?p" using t(6) u(1) by (simp add: fand_run_def Let_def)
  have "daemon_ok E cat u" using u(2) by (simp add: running_def settled_def)
  moreover have "\<forall>row \<in> set (db_fans (idl_db u)). row_name row \<in> fst ` set (fan_data u)"
    using u(3) by (auto simp: row_names_def)
  ultimately have ok: "daemon_ok E cat ?p" and rows: "\<And>row. row \<in> set (db_fans (sw_db t)) \<Longrightarrow>
      \<exists>fa f. (row_name row, fa) \<in> set (fan_data ?p) \<and> fan_heap ?p fa = Some f \<and>
        row_matches f row \<and> speed_of ?p f = Some (fan_speed f)"
    using fand_read_status_published [OF plat _ _ accepts, of u] read t(4) by auto
  have sync: "in_sync cat (sw_db t) (registry_view ?p)" and settled: "settled E cat ?p"
    using t(2,5) by (simp_all add: coherent_def running_def)
  have speed: "row_speed row = fan_speed_enum_to_string (m_speed (asked cat cfg))"
    if cfg: "cfg \<in> set (db_subsystems (sw_db t))" "loadable cat cfg"
      and row: "row \<in> set (db_fans (sw_db t))" "row_name row \<in> set (catalog_names cat (cfg_name cfg))"
    for cfg row
  proof -
    have "registry_view ?p (cfg_name cfg) = Some (asked cat cfg)"
      using sync cfg by (simp add: in_sync_def)
    then obtain a sub where a: "(cfg_name cfg, a) \<in> set (subsystem_data ?p)"
      "subsystem_heap ?p a = Some sub" "managed_of sub = asked cat cfg"
      by (auto simp: registry_view_def bind_eq_Some_conv dest: map_of_SomeD)
    have valid: "sub_valid sub" using settled a(1,2) by (auto simp: settled_def)
    obtain fa f where f: "(row_name row, fa) \<in> set (fan_data ?p)" "fan_heap ?p fa = Some f"
      "row_matches f row" "speed_of ?p f = Some (fan_speed f)"
      using rows [OF row(1)] by blast
    from fan_of_subsystem [OF ok a(1,2) valid row(2) f(1,2)] f(4) have "fan_speed f = sub_speed sub"
      by simp
    with f(3) a(3) [symmetric] show ?thesis by (simp add: row_matches_def managed_of_def)
  qed
  have rpm: "\<forall>row \<in> set (db_fans (sw_db t)). row_rpm row \<noteq> None"
    using rows by (auto simp: row_matches_def)
  show thesis by (rule that [OF t(1-3) rpm speed])
qed

section \<open>Properties\<close>

text \<open>What the shell relies on for a command that must succeed.\<close>

definition accepting_shell :: "cli_services \<Rightarrow> bool" where
  "accepting_shell V \<longleftrightarrow> (\<forall>db. cli_do_config_start V db) \<and>
     (\<forall>db view. cli_do_config_finish V db view = TXN_SUCCESS) \<and>
     (\<forall>row. rpm_datum V row) \<and> FAN_SPEED_OVERRIDE_STR V = ''fan_speed_override''"

lemma accepted_fan_speed:
  assumes "accepting_shell V" and "ovsrec_subsystem_first db = Some cfg"
  shows "cli_db (snd (vtysh_fan_speed V word (shell_on db))) =
    set_first_other_config ((cfg_other_config cfg)(''fan_speed_override'' \<mapsto> word)) db"
  using assms
  by (simp add: accepting_shell_def vtysh_fan_speed_def fan_speed_set_eq shell_on_def requested_def
      smap_replace_def Let_def)

lemma accepted_step:
  assumes "platform E cat" and "coherent E cat (table_of db) (Suc n) s" and "accepting_shell V"
    and "\<not> exiting (sw_daemon s)" and "db_subsystems db \<noteq> []"
  obtains u cfg where "switch_step V E (Fan_Speed word) s = Inr u" and "coherent E cat (table_of db) n u"
    and "\<not> exiting (sw_daemon u)" and "ovsrec_subsystem_first (sw_db u) =
      Some (cfg\<lparr>cfg_other_config := (cfg_other_config cfg)(''fan_speed_override'' \<mapsto> word)\<rparr>)"
proof -
  have "subsystem_table (sw_db s) = subsystem_table db"
    using assms(2) by (auto simp: coherent_def consistent_def table_of_def)
  with assms(5) obtain cfg where first: "ovsrec_subsystem_first (sw_db s) = Some cfg"
    by (cases "db_subsystems (sw_db s)") (auto simp: subsystem_table_def ovsrec_subsystem_first_def)
  obtain u where u: "switch_step V E (Fan_Speed word) s = Inr u" "coherent E cat (table_of db) n u"
    using coherent_step [OF assms(1,2)] by blast
  have same: "ovsrec_subsystem_first (others_commit V db view) = ovsrec_subsystem_first view"
    if "others_columns V view = others_columns V db \<Longrightarrow> view = db" for db view
    using that by (auto simp: others_commit_def ovsrec_subsystem_first_def)
  obtain r sh where sh: "vtysh_fan_speed V word (shell_on (sw_db s)) = (r, sh)" by fastforce
  note unseen = fan_speed_set_unseen [OF sh [unfolded vtysh_fan_speed_def]]
  have "u = s\<lparr>sw_db := others_commit V (sw_db s) (set_first_other_config
      ((cfg_other_config cfg)(''fan_speed_override'' \<mapsto> word)) (sw_db s))\<rparr>"
    using u(1) accepted_fan_speed [OF assms(3) first, of word] by (simp add: switch_step_def Let_def)
  moreover have "cli_db sh = set_first_other_config
      ((cfg_other_config cfg)(''fan_speed_override'' \<mapsto> word)) (sw_db s)"
    using accepted_fan_speed [OF assms(3) first, of word] by (simp add: sh)
  ultimately show thesis using that [OF u] assms(4) first same [OF unseen] by simp
qed

lemma first_alerting:
  assumes "same_alerting db db'" and "ovsrec_subsystem_first db = Some cfg"
  shows "\<exists>us. ovsrec_subsystem_first db' = Some (cfg\<lparr>cfg_fans := us\<rparr>)"
proof -
  obtain rest where "db_subsystems db = cfg # rest"
    using assms(2) by (auto simp: ovsrec_subsystem_first_def split: list.splits)
  with assms(1) obtain cfg' rest' where
    "db_subsystems db' = cfg' # rest'" "cfg'\<lparr>cfg_fans := []\<rparr> = cfg\<lparr>cfg_fans := []\<rparr>"
    by (auto simp: same_alerting_def)
  moreover from this(2) have "cfg' = cfg\<lparr>cfg_fans := cfg_fans cfg'\<rparr>"
    by (cases cfg, cases cfg') simp
  ultimately show ?thesis by (auto simp: ovsrec_subsystem_first_def)
qed

text \<open>The demand of a row with an override of the grammar, as a name.\<close>

lemma asked_speed:
  assumes "smap_get (cfg_other_config cfg) ''fan_speed_override'' = Some word"
    and "word \<in> set fan_speed_words"
  shows "fan_speed_enum_to_string (m_speed (asked cat cfg)) =
    (if ''max'' \<in> set (cfg_temp_sensors cfg) then ''max'' else word)"
proof -
  have max: "fan_speed_enum_to_string FAND_SPEED_MAX = ''max''" by code_simp
  have "m_speed (asked cat cfg) =
      (if ''max'' \<in> set (cfg_temp_sensors cfg) then FAND_SPEED_MAX
       else fan_speed_string_to_enum (Some word))"
    using assms fan_speed_word(2) [OF assms(2)] highest_sensor_max_iff [of "cfg_temp_sensors cfg"]
    by (simp add: asked_def smap_get_def Let_def flip: highest_sensor_eq)
  with fan_speed_word(1) [OF assms(2)] max show ?thesis by simp
qed

text \<open>C7: Nothing goes wrong around one database. On a platform that keeps its contracts, from a
  database whose subsystems have different names and whose fan rows belong to them, every
  interleaving of shell commands, sensor reports and iterations of the daemon, of fewer steps than
  sequence numbers are left, runs without a fault and keeps the daemon's invariant and the
  conditions on the database; and whenever the daemon has had a round with the lock, every
  subsystem it can manage is managed with the override, the speed and the fans that the
  database asks for at that moment.\<close>

theorem switch_stays_in_sync:
  assumes "platform E cat" and "db_seqno replica = 0" and "consistent cat (table_of db) db"
    and "0 < db_seqno db" and "unat (db_seqno db) + length es < 2 ^ 32" and "no_exit es"
  shows "\<exists>s t. switch_run V E es (switch_start E w replica db) = Inr s \<and>
    switch_step V E (Round False True cs) s = Inr t \<and>
    registry_ok (proc (sw_daemon t)) \<and> consistent cat (table_of db) (sw_db t) \<and>
    (\<forall>cfg \<in> set (db_subsystems (sw_db t)). loadable cat cfg \<longrightarrow>
       registry_view (proc (sw_daemon t)) (cfg_name cfg) = Some (asked cat cfg))"
proof -
  have start: "coherent E cat (table_of db) (length es + 0) (switch_start E w replica db)"
    by (rule coherent_start [OF assms(2-4)]) (use assms(5) in simp)
  obtain s where s: "switch_run V E es (switch_start E w replica db) = Inr s"
    "coherent E cat (table_of db) 0 s"
    by (rule coherent_run [OF assms(1) start])
  have "\<not> exiting (sw_daemon s)"
    by (rule switch_run_going [OF s(1) _ assms(6)]) (simp add: switch_start_def main_start_def)
  from coherent_round [OF assms(1) s(2) this] obtain t where
    "switch_step V E (Round False True cs) s = Inr t" "coherent E cat (table_of db) 0 t"
    "idl_seqno (proc (sw_daemon t)) = db_seqno (sw_db t)"
    by blast
  with s(1) show ?thesis
    by (auto simp: coherent_def in_sync_def running_def settled_def daemon_ok_def)
qed

text \<open>C8: From the command to the screen. In such a system, with transactions that are accepted,
  after any steps in which nobody stopped the daemon: once \<open>fan-speed\<close> was given with a word of
  its grammar and the daemon had its next round with the lock, the first subsystem's override is
  that word, every row of the fans that this subsystem is described to have names that speed, or
  \<open>max\<close> if one of its sensors asks for it, and \<open>show system fan\<close> prints all rows and the word.\<close>

theorem fan_speed_reaches_screen:
  assumes "platform E cat" and "db_seqno replica = 0" and "consistent cat (table_of db) db"
    and "0 < db_seqno db" and "unat (db_seqno db) + length es + 1 < 2 ^ 32" and "no_exit es"
    and "\<And>w db view. commit_ok E w db view" and "accepting_shell V" and "db_subsystems db \<noteq> []"
    and "word \<in> set fan_speed_words" and "nl = VTY_NEWLINE V"
  shows "\<exists>t cfg. switch_run V E (es @ [Fan_Speed word, Round False True cs])
      (switch_start E w replica db) = Inr t \<and>
    ovsrec_subsystem_first (sw_db t) = Some cfg \<and>
    smap_get (cfg_other_config cfg) ''fan_speed_override'' = Some word \<and>
    (loadable cat cfg \<longrightarrow> (\<forall>row \<in> set (db_fans (sw_db t)).
       row_name row \<in> set (catalog_names cat (cfg_name cfg)) \<longrightarrow>
       row_speed row = (if ''max'' \<in> set (cfg_temp_sensors cfg) then ''max'' else word))) \<and>
    vtysh_show_system_fan V (shell_on (sw_db t)) = Inr (CMD_SUCCESS, (shell_on (sw_db t))\<lparr>cli_out :=
      show_title @ nl @ show_rule @ nl @ show_heading @ nl @ show_rule @ nl @
      concat (map (\<lambda>row. fan_line V row (the (row_rpm row))) (db_fans (sw_db t))) @
      show_rule @ nl @ show_override (Some word) @ nl @ show_rule @ nl\<rparr>)"
proof -
  have start: "coherent E cat (table_of db) (length es + 1) (switch_start E w replica db)"
    by (rule coherent_start [OF assms(2-4)]) (use assms(5) in simp)
  obtain s where s: "switch_run V E es (switch_start E w replica db) = Inr s"
    "coherent E cat (table_of db) (Suc 0) s"
    by (rule coherent_run [OF assms(1) start]) simp
  have going: "\<not> exiting (sw_daemon s)"
    by (rule switch_run_going [OF s(1) _ assms(6)]) (simp add: switch_start_def main_start_def)
  obtain u row where u: "switch_step V E (Fan_Speed word) s = Inr u" "coherent E cat (table_of db) 0 u"
    "\<not> exiting (sw_daemon u)" "ovsrec_subsystem_first (sw_db u) =
      Some (row\<lparr>cfg_other_config := (cfg_other_config row)(''fan_speed_override'' \<mapsto> word)\<rparr>)"
    by (rule accepted_step [OF assms(1) s(2) assms(8) going assms(9)])
  from round_publishes [OF assms(1) u(2,3) assms(7), of V cs] obtain t where
    t: "switch_step V E (Round False True cs) u = Inr t" "same_alerting (sw_db u) (sw_db t)"
    "\<forall>row \<in> set (db_fans (sw_db t)). row_rpm row \<noteq> None"
    "\<And>cfg row. cfg \<in> set (db_subsystems (sw_db t)) \<Longrightarrow> loadable cat cfg \<Longrightarrow>
      row \<in> set (db_fans (sw_db t)) \<Longrightarrow> row_name row \<in> set (catalog_names cat (cfg_name cfg)) \<Longrightarrow>
      row_speed row = fan_speed_enum_to_string (m_speed (asked cat cfg))"
    by metis
  obtain cfg where cfg: "ovsrec_subsystem_first (sw_db t) = Some cfg"
    and override: "smap_get (cfg_other_config cfg) ''fan_speed_override'' = Some word"
    using first_alerting [OF t(2) u(4)] by (auto simp: smap_get_def)
  have "cfg \<in> set (db_subsystems (sw_db t))"
    using cfg by (auto simp: ovsrec_subsystem_first_def split: list.splits)
  note speeds = t(4) [OF this, unfolded asked_speed [OF override assms(10)]]
  have "switch_run V E (es @ [Fan_Speed word, Round False True cs]) (switch_start E w replica db) = Inr t"
    using s(1) u(1) t(1) by (simp add: switch_run_append) (simp add: switch_run_def)
  moreover have "vtysh_show_system_fan V (shell_on (sw_db t)) = Inr (CMD_SUCCESS, (shell_on (sw_db t))\<lparr>cli_out :=
      show_title @ nl @ show_rule @ nl @ show_heading @ nl @ show_rule @ nl @
      concat (map (\<lambda>row. fan_line V row (the (row_rpm row))) (db_fans (sw_db t))) @
      show_rule @ nl @ show_override (Some word) @ nl @ show_rule @ nl\<rparr>)"
    using show_system_fan_output [of "shell_on (sw_db t)" cfg V nl] cfg t(3) assms(8,11) override
    by (simp add: shell_on_def accepting_shell_def)
  ultimately show ?thesis using cfg override speeds by blast
qed

end
