(* ===== verification/Spec2Isabelle.thy ===== *)
theory Spec2Isabelle
  imports Hazards Main_Program Typed_Rows Abstraction Switch
begin

text \<open>
  A verification development for ops-fand, the fan daemon of OpenSwitch, and for the fan
  commands of its shell.

  \<^bold>\<open>The program.\<close> The daemon (\<open>src/fand.c\<close>, \<open>src/physfan.c\<close>) polls the fans of a switch. Its
  main loop takes over the OVSDB replica, reconciles its registry of subsystems and fans with the
  subsystem table (\<open>fand_reconfigure\<close>), sets fan speeds and LEDs through i2c registers, reads
  speed, direction and status of every fan (\<open>fand_read_status\<close>), publishes them in the Fan table,
  and serves a control socket. What fans a subsystem has comes from description files through the
  config-yaml library. The shell commands (\<open>src/cli\<close>) run in another process and meet the daemon
  in the database: they write the speed override and print the fan rows.

  \<^bold>\<open>Theories and code.\<close>
  \<^item> \<open>Prelude\<close>: faults, results that may be a fault, the loop combinator, machine integers, decimal
    printing. \<open>Containers\<close>: \<open>shash\<close> and \<open>smap\<close>, the latter behind the locale \<open>string_map\<close>.
  \<^item> \<open>Enums\<close>: \<open>fanspeed.c\<close>, \<open>fandirection.c\<close>, \<open>fanstatus.c\<close> and their headers, over the locale
    \<open>enum_codec\<close>.
  \<^item> \<open>Fand_State\<close>: \<open>fand-locl.h\<close>, the rows of the database, the services outside the repository
    (record \<open>services\<close>) and the process with its heap (record \<open>fand\<close>). \<open>Bench\<close>: one concrete
    platform, for the witnesses.
  \<^item> \<open>Physfan_Speed\<close>, \<open>Physfan_Leds\<close>, \<open>Physfan_Status\<close>: \<open>fand_set_fanspeed\<close>,
    \<open>fand_set_fanleds\<close> and \<open>fand_read_fan_status\<close> of \<open>physfan.c\<close> with their helpers, each with a
    short specification that the code is shown to implement.
  \<^item> \<open>Registry\<close>: \<open>add_subsystem\<close>, \<open>get_subsystem\<close>, mark and sweep, and the state of
    \<open>fand_init\<close>. \<open>Registry_Inv\<close>, \<open>Registry_Add\<close>, \<open>Registry_Sweep\<close>: the invariant \<open>registry_ok\<close> and
    what the operations do to the registry; the locale \<open>physfan\<close> is the contract of the register
    operations towards it.
  \<^item> \<open>Daemon\<close>: \<open>fand_read_status\<close>, \<open>fand_reconfigure\<close>, \<open>fand_run\<close>, \<open>fand_unixctl_dump\<close>,
    \<open>ops_fand_exit\<close> and the loop of \<open>main\<close>. \<open>Options\<close>: \<open>parse_options\<close>, \<open>usage\<close> and \<open>main\<close>
    before the loop. \<open>Main_Program\<close>: \<open>main\<close> from the command line to its return, with the
    registration of the commands, \<open>fand_wait\<close> and \<open>fand_exit\<close>, as a function of its inputs.
    \<open>Idl\<close>: the registration of tables and columns in \<open>fand_init\<close>, and the locale
    \<open>replica_invariant\<close> of predicates that the daemon's row operations keep.
  \<^item> \<open>Platform\<close>: the contracts of the services. \<open>Daemon_Inv\<close>, \<open>Reconfigure\<close>, \<open>Reading\<close>, \<open>Run\<close>:
    the invariant of the running daemon, its preservation by \<open>fand_reconfigure\<close> and
    \<open>fand_read_status\<close>, and whole runs. \<open>Abstraction\<close>: a machine over the managed subsystems
    that the main loop refines. \<open>Typed_Rows\<close>: the Fan table stays well typed.
  \<^item> \<open>Cli\<close>: \<open>src/cli/fan_vty.c\<close> and \<open>src/cli/vtysh_ovsdb_fan_context.c\<close>. \<open>Switch\<close>: the shell
    and the daemon around one database, in any interleaving of their transactions.
  \<^item> \<open>Hazards\<close>: runs on which the code goes wrong outside the assumptions, and what it does not
    do that the design says.

  \<^bold>\<open>How state and operations are represented.\<close> A structure is a record, a pointer to a fan or a
  subsystem an address in a heap, so that aliasing between the two tables of fans and dangling
  pointers are visible; \<open>free\<close> removes the address and addresses are not used again. An operation
  takes the state and answers a new one or a fault (\<open>NullDeref\<close>, \<open>DanglingDeref\<close>,
  \<open>BufferOverflow\<close>, \<open>IntOverflow\<close>, \<open>DivByZero\<close>, \<open>AssertFailure\<close>). C loops over a fixed range or a
  table are \<open>for_each\<close> or recursion over the list they traverse, so every operation is total and
  no fuel is used. The main loop is a relation, \<open>main_loop\<close>, over the inputs of its iterations,
  and also a function of them, \<open>while_loop\<close>, which is shown to take its steps. \<open>int\<close> and
  \<open>uint32_t\<close> are 32-bit words, signed overflow is a fault. Memory from \<open>malloc\<close> and uninitialised
  variables hold values of the parameters \<open>junk_fan\<close> and \<open>junk_u32\<close>.

  \<^bold>\<open>What is assumed.\<close> \<open>platform E cat\<close>: the config-yaml library answers the entries of a catalogue
  of sound descriptions (\<open>yaml_library\<close>; at least one FRU, different fan names, a multiplier of at
  most 32768), and the registers that are read are one byte wide (\<open>byte_registers\<close>). \<open>consistent
  cat tbl db\<close>: subsystem names are unique and no two subsystems of the catalogue give fans the
  same joined name (\<open>unambiguous\<close>), the sequence number changes with the subsystem table, and
  every fan row belongs to a subsystem that the catalogue describes. The traversal order of hash
  tables, the server's verdicts and the outcome of register accesses are arbitrary. Each theorem
  names those it needs; the theorems of \<open>Hazards\<close>, the one on unknown rows and the one on the
  speed computation show what happens without them. In \<open>Switch\<close> the conditions on the database are
  required at the start only and then shown to last, for fewer than \<open>2 ^ 32\<close> transactions (the
  sequence number is 32 bits wide and would wrap).

  \<^bold>\<open>What the theorems show.\<close> Safety: no run of the main loop faults, and the invariant holds after
  every iteration. Function: after a reconfiguration the registry is the one of the database with
  the speeds that sensors and overrides imply, after a publication the rows are what was read, the
  register writes are those of the specification, and a shell command reaches the fans.
  Composition: around one database every interleaving of shell commands, sensor reports and
  iterations is safe, the daemon is in step with the database after each round, and an override
  reaches the fan rows and the screen. Refinement: over whole runs the registry is an abstract
  machine's, and the sweep and the register writes implement their specifications. Types: the
  columns of the Fan table hold what their types allow. Liveness and termination: the loop is
  never stuck, sleeps at most five seconds, ends with the exit command exactly, and \<open>main\<close> then
  returns 0. Frame: the daemon writes only columns whose alerts it omitted (which is also why a
  loop over the subsystem rows may be taken over the rows at its start), and no registers while
  the database does not change. Round trips: enumerations and their names, printed fan lines, the
  saved configuration.

  \<^bold>\<open>Not modelled.\<close> Logging and coverage counters, including the members that only debug messages
  read; the failure of \<open>malloc\<close> and the other allocating functions, which the code does not test;
  the internals of Open vSwitch, config-yaml, i2c and vtysh, so of sockets, of sleeping and of
  what taking down the connection does; daemonizing; the wait for a blocking commit and changes
  that the server makes meanwhile (the replica changes at the start of an iteration only, so a
  step of \<open>Switch\<close> is a whole iteration or a whole shell command); the help texts of the shell
  commands. The Python tests and the build files are not code of the program.
\<close>

section \<open>Runs of the daemon\<close>

text \<open>C1: No run faults. On a platform that keeps its contracts, with a replica that is empty
  before the first iteration and consistent in every iteration, every run of the main loop
  reaches a proper state, never a NULL or dangling access, an array overrun, an integer overflow
  or a division by zero; the state satisfies the invariant, and the daemon is exiting exactly if
  the last iteration processed an exit command.\<close>

theorem main_loop_never_faults:
  assumes "main_loop E w db ins r" and "platform E cat" and "tbl (db_seqno db) = []"
    and "\<forall>(inp, cs) \<in> set ins. consistent cat tbl (in_db inp)"
  shows "\<exists>d. r = Inr d \<and> running E cat tbl (proc d) \<and> registry_ok (proc d) \<and>
    exiting d = (ins \<noteq> [] \<and> Exit \<in> set (snd (last ins)))"
proof -
  obtain d where d: "r = Inr d" "running E cat tbl (proc d)"
    "exiting d = (ins \<noteq> [] \<and> Exit \<in> set (snd (last ins)))"
    using main_loop_running [where tbl = tbl, OF assms] by blast
  moreover have "registry_ok (proc d)"
    using d(2) by (simp add: running_def settled_def daemon_ok_def)
  ultimately show ?thesis by blast
qed

text \<open>The bench's table, and one iteration with the lock that dumps and exits.\<close>

definition bench_tbl :: "u32 \<Rightarrow> table" where
  "bench_tbl n = (if n = 7 then [(''base'', Some ''/etc/openswitch/platform'')] else [])"

definition bench_input :: idl_input where
  "bench_input = \<lparr>in_db = bench_db, in_lock_contended = False, in_has_lock = True\<rparr>"

lemma bench_consistent: "consistent bench_cat bench_tbl (in_db bench_input)"
  by (simp add: consistent_def bench_input_def subsystem_table_def bench_tbl_def row_names_def)
    (simp add: bench_cfg_def)

lemma bench_tbl_empty: "bench_tbl (db_seqno empty_db) = []"
  by (simp add: bench_tbl_def empty_db_def)

lemma bench_run:
  "main_loop bench bench_bus empty_db [(bench_input, [Dump, Exit])]
     (main_iteration bench bench_input [Dump, Exit] (main_start bench bench_bus empty_db))"
  using main_loop.iterate [OF main_loop.start, of bench bench_bus empty_db bench_input "[Dump, Exit]"]
  by (simp add: main_start_def)

theorem main_loop_never_faults_witness:
  "\<exists>d. main_loop bench bench_bus empty_db [(bench_input, [Dump, Exit])] (Inr d) \<and>
     exiting d \<and> registry_ok (proc d)"
  using main_loop_never_faults [where tbl = bench_tbl, OF bench_run platform_bench bench_tbl_empty] bench_consistent bench_run
  by auto

text \<open>The runs of the bench for the theorems on the abstract machine, on typed rows and on the
  whole program.\<close>

lemma bench_rows_typed: "rows_typed bench_db" "rows_typed empty_db"
  by (simp_all add: rows_typed_def bench_db_def empty_db_def)

theorem main_loop_refines_abstract_machine_witness:
  "\<exists>d m. main_loop bench bench_bus empty_db [(bench_input, [Dump, Exit])] (Inr d) \<and>
     registry_view (proc d) ''base'' = Some m \<and> m_speed m = FAND_SPEED_FAST"
proof -
  obtain d where d: "main_loop bench bench_bus empty_db [(bench_input, [Dump, Exit])] (Inr d)"
    using main_loop_running [where tbl = bench_tbl, OF bench_run platform_bench bench_tbl_empty]
      bench_consistent bench_run by auto
  have "abstraction (proc d) = spec_iteration bench_cat bench_input (0, Map.empty)"
    using main_loop_refines_abstract_machine [where tbl = bench_tbl, OF d platform_bench bench_tbl_empty]
      bench_consistent by (simp add: empty_db_def)
  then have "registry_view (proc d) ''base'' = Some (asked bench_cat bench_cfg)"
    by (simp add: abstraction_def spec_iteration_def spec_reconfigure_def bench_input_def)
  moreover have "m_speed (asked bench_cat bench_cfg) = FAND_SPEED_FAST" by code_simp
  ultimately show ?thesis using d by blast
qed

theorem main_loop_keeps_rows_typed_witness:
  "\<exists>d. main_loop bench bench_bus empty_db [(bench_input, [Dump, Exit])] (Inr d) \<and>
     rows_typed (idl_db (proc d))"
proof -
  obtain d where d: "main_loop bench bench_bus empty_db [(bench_input, [Dump, Exit])] (Inr d)"
    using main_loop_running [where tbl = bench_tbl, OF bench_run platform_bench bench_tbl_empty]
      bench_consistent bench_run by auto
  have "rows_typed (idl_db (proc d))"
    by (rule main_loop_keeps_rows_typed [where tbl = bench_tbl, OF d platform_bench bench_tbl_empty])
      (use bench_consistent bench_rows_typed in \<open>simp_all add: bench_input_def\<close>)
  with d show ?thesis by blast
qed

theorem main_program_serves_until_exit_witness:
  "\<exists>d. main_program (bench_start_services [] [''tcp:db'']) bench bench_bus (\<lambda>_. empty_db) [] 0
       [(bench_input, [(''exit'', [''now'']), (''list'', [])]), (bench_input, [(''exit'', [])]),
        (bench_input, [])] =
     Returned 0 d
       [Poll_Block [Wake_Idl, Wake_Timer 5000, Wake_Unixctl],
        Poll_Block [Wake_Idl, Wake_Timer 5000, Wake_Unixctl, Wake_Immediately],
        Idl_Destroy, Unixctl_Server_Destroy]"
proof -
  let ?P = "bench_start_services [] [''tcp:db'']"
  obtain opts d where "main_setup ?P bench bench_bus (\<lambda>_. empty_db) [] 0 = Inr (''tcp:db'', opts, d)"
    by (simp add: main_setup_def parse_options_def bench_start_services_def)
  from main_program_serves_until_exit [where tbl = bench_tbl, OF this platform_bench bench_tbl_empty,
      of "[(bench_input, [(''exit'', [''now'']), (''list'', [])]), (bench_input, [(''exit'', [])]),
        (bench_input, [])]"] bench_consistent
  show ?thesis by auto
qed

text \<open>The daemon keeps going. Under the same conditions every sequence of inputs in which
  no iteration but the last processes an exit command is a run: the loop is never stuck.\<close>

lemma main_loop_keeps_going:
  assumes "platform E cat" and "tbl (db_seqno db) = []"
    and "\<forall>(inp, cs) \<in> set ins. consistent cat tbl (in_db inp)"
    and "\<forall>(inp, cs) \<in> set (butlast ins). Exit \<notin> set cs"
  shows "\<exists>d. main_loop E w db ins (Inr d)"
  using assms(3,4)
proof (induction ins rule: rev_induct)
  case Nil
  show ?case by (rule exI, rule main_loop.start)
next
  case (snoc x ins)
  obtain inp cs where x: "x = (inp, cs)" by fastforce
  have no_exit: "\<forall>(inp, cs) \<in> set ins. Exit \<notin> set cs" using snoc.prems(2) by simp
  then have "\<forall>(inp, cs) \<in> set (butlast ins). Exit \<notin> set cs" by (auto dest: in_set_butlastD)
  then obtain d where d: "main_loop E w db ins (Inr d)"
    using snoc.IH snoc.prems(1) by auto
  have "running E cat tbl (proc d)"
    using main_loop_running [where tbl = tbl, OF d assms(1,2)] snoc.prems(1) by auto
  then obtain e where e: "main_iteration E inp cs d = Inr e"
    by (rule main_iteration_ok [OF assms(1)]) (use snoc.prems(1) x in auto)
  have "\<not> exiting d"
    using main_loop_exiting [OF d] no_exit last_in_set [of ins] by (auto simp: split_beta)
  from main_loop.iterate [OF d this, of inp cs] show ?case by (auto simp: x e)
qed

lemma main_loop_keeps_going_bench:
  "\<exists>d. main_loop bench bench_bus empty_db
     [(bench_input, []), (bench_input, [Dump]), (bench_input, [Exit])] (Inr d)"
  using main_loop_keeps_going [where tbl = bench_tbl, OF platform_bench bench_tbl_empty,
      of "[(bench_input, []), (bench_input, [Dump]), (bench_input, [Exit])]" bench_bus] bench_consistent
  by simp

text \<open>C21: Leaving the loop. Whatever the platform does, an iteration that processed an exit
  command is the last one, and only such an iteration makes the daemon exit.\<close>

theorem main_loop_stops_at_exit:
  assumes "main_loop E w db ins r"
  shows "(\<forall>(inp, cs) \<in> set (butlast ins). Exit \<notin> set cs) \<and>
    (\<forall>d. r = Inr d \<longrightarrow> exiting d = (ins \<noteq> [] \<and> Exit \<in> set (snd (last ins))))"
  using main_loop_no_early_exit [OF assms] main_loop_exiting [of E w db ins] assms by blast

theorem main_loop_stops_at_exit_witness:
  "\<exists>d. main_iteration bench bench_input [Dump, Exit] (main_start bench bench_bus empty_db) = Inr d \<and>
     exiting d"
proof -
  obtain d where "main_iteration bench bench_input [Dump, Exit]
      (main_start bench bench_bus empty_db) = Inr d"
    using main_loop_running [where tbl = bench_tbl, OF bench_run platform_bench bench_tbl_empty] bench_consistent by auto
  with main_loop_stops_at_exit [OF bench_run] show ?thesis by auto
qed


section \<open>The switch around one database\<close>

text \<open>The bench's database as the start of a system.\<close>

lemma bench_switch:
  "consistent bench_cat (table_of bench_db) bench_db" "db_seqno empty_db = 0" "0 < db_seqno bench_db"
  "unat (db_seqno bench_db) = 7" "db_subsystems bench_db \<noteq> []"
  by (simp_all add: consistent_def subsystem_table_def table_of_def row_names_def empty_db_def)

theorem switch_stays_in_sync_witness:
  "\<exists>s t. switch_run bench_cli bench [Round False True [Dump], No_Fan_Speed, Sensors 0 [''max'']]
       (switch_start bench bench_bus empty_db bench_db) = Inr s \<and>
     switch_step bench_cli bench (Round False True []) s = Inr t \<and> registry_ok (proc (sw_daemon t))"
proof -
  let ?es = "[Round False True [Dump], No_Fan_Speed, Sensors 0 [''max'']]"
  have "unat (db_seqno bench_db) + length ?es < 2 ^ 32" "no_exit ?es"
    by (simp_all add: bench_switch no_exit_def)
  from switch_stays_in_sync [OF platform_bench bench_switch(2,1,3) this] show ?thesis by blast
qed

text \<open>The names and speeds of the rows at the end of a run.\<close>

definition row_speeds :: "('y, 'w) switch \<Rightarrow> (string \<times> string) list" where
  "row_speeds s = map (\<lambda>row. (row_name row, row_speed row)) (db_fans (sw_db s))"

lemma bench_row_speeds:
  "map_sum id row_speeds (switch_run bench_cli bench [Round False True [], Fan_Speed ''slow'', Round False True []]
     (switch_start bench bench_bus empty_db bench_db)) =
   Inr [(''base-1L'', ''slow''), (''base-1R'', ''slow''), (''base-2L'', ''slow'')]"
  by code_simp

theorem fan_speed_reaches_screen_witness:
  "\<exists>t cfg pre post. switch_run bench_cli bench [Round False True [], Fan_Speed ''slow'', Round False True []]
       (switch_start bench bench_bus empty_db bench_db) = Inr t \<and>
     row_speeds t = [(''base-1L'', ''slow''), (''base-1R'', ''slow''), (''base-2L'', ''slow'')] \<and>
     ovsrec_subsystem_first (sw_db t) = Some cfg \<and>
     vtysh_show_system_fan bench_cli (shell_on (sw_db t)) =
       Inr (CMD_SUCCESS, (shell_on (sw_db t))\<lparr>cli_out :=
         pre @ ''Fan speed override is set to : slow'' @ post\<rparr>)"
proof -
  have es: "unat (db_seqno bench_db) + length [Round False True []] + 1 < 2 ^ 32"
    "no_exit [Round False True []]"
    by (simp_all add: bench_switch no_exit_def)
  have bench: "\<And>w db view. commit_ok bench w db view" "accepting_shell bench_cli"
    "''slow'' \<in> set fan_speed_words"
    by (simp_all add: bench_def accepting_shell_def bench_cli_def fan_speed_words_def)
  obtain t cfg where t: "switch_run bench_cli bench [Round False True [], Fan_Speed ''slow'', Round False True []]
       (switch_start bench bench_bus empty_db bench_db) = Inr t"
    "ovsrec_subsystem_first (sw_db t) = Some cfg"
    "vtysh_show_system_fan bench_cli (shell_on (sw_db t)) = Inr (CMD_SUCCESS, (shell_on (sw_db t))\<lparr>cli_out :=
      show_title @ VTY_NEWLINE bench_cli @ show_rule @ VTY_NEWLINE bench_cli @ show_heading @
      VTY_NEWLINE bench_cli @ show_rule @ VTY_NEWLINE bench_cli @
      concat (map (\<lambda>row. fan_line bench_cli row (the (row_rpm row))) (db_fans (sw_db t))) @
      show_rule @ VTY_NEWLINE bench_cli @ show_override (Some ''slow'') @ VTY_NEWLINE bench_cli @
      show_rule @ VTY_NEWLINE bench_cli\<rparr>)"
    using fan_speed_reaches_screen [OF platform_bench bench_switch(2,1,3) es bench(1,2)
        bench_switch(5) bench(3) refl, where w = bench_bus and cs = "[]"] by auto
  have override: "show_override (Some ''slow'') = ''Fan speed override is set to : slow''"
    by (simp add: show_override_def)
  have "row_speeds t = [(''base-1L'', ''slow''), (''base-1R'', ''slow''), (''base-2L'', ''slow'')]"
    using bench_row_speeds t(1) by simp
  moreover have "\<exists>pre post. Q (pre @ x @ post)"
    if "Q (a @ b @ c @ d @ e @ f @ g @ h @ i @ k @ l @ x @ rest)"
    for Q and a b c d e f g h i k l x rest :: string
    using that by (intro exI [of _ "a @ b @ c @ d @ e @ f @ g @ h @ i @ k @ l"] exI [of _ rest]) simp
  from this [where Q = "\<lambda>out. vtysh_show_system_fan bench_cli (shell_on (sw_db t)) =
      Inr (CMD_SUCCESS, (shell_on (sw_db t))\<lparr>cli_out := out\<rparr>)", OF t(3) [unfolded override]]
  have "\<exists>pre post. vtysh_show_system_fan bench_cli (shell_on (sw_db t)) =
      Inr (CMD_SUCCESS, (shell_on (sw_db t))\<lparr>cli_out :=
        pre @ ''Fan speed override is set to : slow'' @ post\<rparr>)" .
  ultimately show ?thesis using t(1,2) by blast
qed

text \<open>C9: From the shell to the fans. When the daemon, in a good state, takes over a replica in
  which the first subsystem was just given an override by \<open>fan-speed\<close>, it puts that subsystem
  at the named speed, unless a sensor asks for \<open>max\<close>, in which case it runs at \<open>MAX\<close>.\<close>

theorem override_takes_effect:
  assumes "vtysh_fan_speed V word sh = (CMD_SUCCESS, sh')" and "word \<in> set fan_speed_words"
    and "FAN_SPEED_OVERRIDE_STR V = ''fan_speed_override''" and "honest_unchanged V"
    and "yaml_library E cat" and "settled E cat s" and "idl_db s = (cli_db sh')\<lparr>db_seqno := n\<rparr>"
    and "n \<noteq> idl_seqno s" and "distinct (map cfg_name (db_subsystems (cli_db sh')))"
    and "\<forall>cfg \<in> set (db_subsystems (cli_db sh')). unambiguous cat (cfg_name cfg)"
    and "ovsrec_subsystem_first (cli_db sh') = Some cfg" and "loadable cat cfg"
  shows "\<exists>t a sub. fand_reconfigure E s = Inr t \<and> (cfg_name cfg, a) \<in> set (subsystem_data t) \<and>
    subsystem_heap t a = Some sub \<and>
    fan_speed_enum_to_string (sub_speed sub) =
      (if ''max'' \<in> set (cfg_temp_sensors cfg) then ''max'' else word)"
proof -
  have db: "db_subsystems (idl_db s) = db_subsystems (cli_db sh')" "db_seqno (idl_db s) = n"
    by (simp_all add: assms(7))
  obtain t where t: "fand_reconfigure E s = Inr t"
    and r: "reflects cat (fst ` set (subsystem_data s)) (db_subsystems (idl_db s)) t"
    by (rule fand_reconfigure_ok [OF assms(5,6)]) (use assms(8-10) db in simp_all)
  have cfg: "cfg \<in> set (db_subsystems (idl_db s))"
    using assms(11) by (auto simp: db ovsrec_subsystem_first_def split: list.splits)
  obtain a where a: "(cfg_name cfg, a) \<in> set (subsystem_data t)"
    using reflects_D(3) [OF r cfg assms(12)] by blast
  obtain sub where sub: "subsystem_heap t a = Some sub" "configured cfg sub"
    using reflects_D(4) [OF r a] cfg by blast
  obtain row where "ovsrec_subsystem_first (cli_db sh') =
      Some (row\<lparr>cfg_other_config := requested V (Some word) True (cfg_other_config row)\<rparr>)"
    by (rule fan_speed_set_success [OF assms(1) [unfolded vtysh_fan_speed_def] assms(4)])
  then have "smap_get (cfg_other_config cfg) ''fan_speed_override'' = Some word"
    using assms(3,11) by (auto simp: requested_def smap.get_put)
  with sub(2) fan_speed_word [OF assms(2)] have
    "fan_speed_enum_to_string (sub_speed sub) =
      (if ''max'' \<in> set (cfg_temp_sensors cfg) then fan_speed_enum_to_string FAND_SPEED_MAX else word)"
    by (simp add: configured_def effective_speed_eq highest_sensor_max_iff)
  moreover have "fan_speed_enum_to_string FAND_SPEED_MAX = ''max''" by code_simp
  ultimately show ?thesis using t a sub(1) by auto
qed

theorem override_takes_effect_witness:
  "\<exists>t a sub. fand_reconfigure bench ((fand_init bench bench_bus empty_db)\<lparr>idl_db :=
       (cli_db (snd (vtysh_fan_speed bench_cli ''fast'' bench_shell)))\<lparr>db_seqno := 8\<rparr>\<rparr>) = Inr t \<and>
     (''base'', a) \<in> set (subsystem_data t) \<and>
     subsystem_heap t a = Some sub \<and> fan_speed_enum_to_string (sub_speed sub) = ''fast''"
proof -
  let ?sh = "snd (vtysh_fan_speed bench_cli ''fast'' bench_shell)"
  let ?cfg = "bench_cfg\<lparr>cfg_other_config := [''fan_speed_override'' \<mapsto> ''fast'']\<rparr>"
  let ?s = "(fand_init bench bench_bus empty_db)\<lparr>idl_db := (cli_db ?sh)\<lparr>db_seqno := 8\<rparr>\<rparr>"
  have run: "vtysh_fan_speed bench_cli ''fast'' bench_shell = (CMD_SUCCESS, ?sh)"
    and first: "ovsrec_subsystem_first (cli_db ?sh) = Some ?cfg"
    and rows: "db_subsystems (cli_db ?sh) = [?cfg]"
    by (simp_all add: vtysh_fan_speed_def fan_speed_set_eq bench_cli_def bench_shell_def Let_def
        requested_def ovsrec_subsystem_first_def set_first_other_config_def smap_replace_def)
  have grammar: "''fast'' \<in> set fan_speed_words"
    and key: "FAN_SPEED_OVERRIDE_STR bench_cli = ''fan_speed_override''" "honest_unchanged bench_cli"
    by (simp_all add: fan_speed_words_def bench_cli_def honest_unchanged_def)
  have s: "settled bench bench_cat ?s" "idl_db ?s = (cli_db ?sh)\<lparr>db_seqno := 8\<rparr>" "8 \<noteq> idl_seqno ?s"
    by simp_all (simp add: fand_init_def init_subsystems_def empty_db_def)
  have names: "distinct (map cfg_name (db_subsystems (cli_db ?sh)))"
    "\<forall>cfg \<in> set (db_subsystems (cli_db ?sh)). unambiguous bench_cat (cfg_name cfg)"
    by (simp_all add: rows)
  have cfg: "loadable bench_cat ?cfg" by simp
  from override_takes_effect [OF run grammar key yaml_library_bench s names first cfg]
  show ?thesis by auto
qed

end
